theory Spec2Isabelle
  imports
    Complex_Main
    "HOL-Library.AList"
    "HOL-Library.Sublist"
    "HOL-Library.Char_ord"
    "HOL-Library.List_Lexorder"
begin

unbundle bit_operations_syntax

section \<open>Python values and exceptions\<close>

text \<open>
  The values that travel in the argument tuple of an exception. Only what the cache and
  the codec look at is kept: integers (errno values), strings and \<open>None\<close>.
\<close>

datatype pyval = PyInt int | PyStr string | PyNone

text \<open>
  An exception class is identified the way Python identifies it: a class of the
  \<open>builtins\<close> module, or a class defined elsewhere (module and qualified name). An
  exception object is its class together with its \<open>args\<close> tuple, which is what
  \<open>BaseException.__init__\<close> stores.
\<close>

datatype exc_class = Builtin string | UserClass string string

fun qualname :: "exc_class \<Rightarrow> string" where
  "qualname (Builtin n) = n"
| "qualname (UserClass m n) = n"

datatype exn = Exn (exc_type: exc_class) (exc_args: "pyval list")

abbreviation FileNotFoundError :: "pyval list \<Rightarrow> exn" where
  "FileNotFoundError \<equiv> Exn (Builtin ''FileNotFoundError'')"

abbreviation ValueError :: "pyval list \<Rightarrow> exn" where
  "ValueError \<equiv> Exn (Builtin ''ValueError'')"

abbreviation KeyError :: "pyval list \<Rightarrow> exn" where
  "KeyError \<equiv> Exn (Builtin ''KeyError'')"

abbreviation TypeError :: "pyval list \<Rightarrow> exn" where
  "TypeError \<equiv> Exn (Builtin ''TypeError'')"

section \<open>rpc: serialization of exceptions\<close>

text \<open>
  The serialization friendly representation is a nested dictionary. \<open>wire\<close> has the
  three shapes the exception codec produces and reads: a string, an argument sequence and
  a dictionary with string keys (in insertion order).
\<close>

datatype wire = WStr string | WArgs "pyval list" | WDict "(string \<times> wire) list"

text \<open>
  \<open>Encoding._serialize_exception\<close>:
  \<^verbatim>\<open>{"__exception__": {"name": exc.__class__.__qualname__, "args": exc.args}}\<close>
\<close>

definition serialize_exception :: "exn \<Rightarrow> wire" where
  "serialize_exception exc =
     WDict [(''__exception__'',
             WDict [(''name'', WStr (qualname (exc_type exc))),
                    (''args'', WArgs (exc_args exc))])]"

text \<open>
  What \<open>getattr(builtins, name, None.__class__)\<close> can find under a name: a class that
  derives from \<open>BaseException\<close>, some other class (\<open>int\<close>, and the default
  \<open>NoneType\<close>), or an object that is not a class (\<open>print\<close>). The content of the
  \<open>builtins\<close> module belongs to the interpreter, so it is a parameter: a table
  from names to what they are bound to.
\<close>

datatype builtin_obj = ExcType exc_class | OtherType | NotAType

type_synonym builtins = "string \<Rightarrow> builtin_obj option"

definition getattr_builtins :: "builtins \<Rightarrow> string \<Rightarrow> builtin_obj" where
  "getattr_builtins b name = (case b name of Some obj \<Rightarrow> obj | None \<Rightarrow> OtherType)"

text \<open>Subscripting a serialized dictionary: a missing key raises \<open>KeyError\<close>, and
  subscripting a string or a sequence with a string raises \<open>TypeError\<close>.\<close>

fun getitem :: "wire \<Rightarrow> string \<Rightarrow> exn + wire" where
  "getitem (WDict kvs) k =
     (case map_of kvs k of Some v \<Rightarrow> Inr v | None \<Rightarrow> Inl (KeyError [PyStr k]))"
| "getitem (WStr s) k = Inl (TypeError [])"
| "getitem (WArgs a) k = Inl (TypeError [])"

text \<open>
  \<open>Encoding._deserialize_exception\<close>. The name is looked up among the builtins; a
  class deriving from \<open>BaseException\<close> is instantiated with the arguments, anything
  else gives a generic \<open>Exception\<close> with the arguments. The outer sum is the outcome of
  the call itself (\<open>Inl\<close>: the call raised), the inner value is the exception object
  it returns.
\<close>

definition deserialize_exception :: "builtins \<Rightarrow> wire \<Rightarrow> exn + exn" where
  "deserialize_exception b obj =
     (case getitem obj ''__exception__'' of
        Inl e \<Rightarrow> Inl e
      | Inr inner \<Rightarrow>
          (case getitem inner ''name'' of
             Inl e \<Rightarrow> Inl e
           | Inr name \<Rightarrow>
               (case getitem inner ''args'' of
                  Inl e \<Rightarrow> Inl e
                | Inr args \<Rightarrow>
                    (case (name, args) of
                       (WStr n, WArgs a) \<Rightarrow>
                         (case getattr_builtins b n of
                            ExcType c \<Rightarrow> Inr (Exn c a)
                          | OtherType \<Rightarrow> Inr (Exn (Builtin ''Exception'') a)
                          | NotAType \<Rightarrow> Inr (Exn (Builtin ''Exception'') a))
                     | _ \<Rightarrow> Inl (TypeError [])))))"

text \<open>A table with some of the names of the \<open>builtins\<close> module, to run the codec on.\<close>

definition some_builtins :: builtins where
  "some_builtins =
     map_of [(''Exception'', ExcType (Builtin ''Exception'')),
             (''OSError'', ExcType (Builtin ''OSError'')),
             (''IOError'', ExcType (Builtin ''OSError'')),
             (''FileNotFoundError'', ExcType (Builtin ''FileNotFoundError'')),
             (''ValueError'', ExcType (Builtin ''ValueError'')),
             (''int'', OtherType),
             (''print'', NotAType)]"

section \<open>filesystem.common and caching.common: the data classes\<close>

text \<open>
  \<open>Attributes\<close>: the ten declared fields of the data class. The generated equality
  of a data class compares the declared fields, and \<open>dataclasses.replace\<close> copies the
  declared fields, so extra attributes set by the constructor are not part of the model.
  \<open>st_atime_ns\<close> is optional because \<open>_significant_meta\<close> replaces it by \<open>None\<close>.
\<close>

record Attributes =
  st_mode :: int
  st_ino :: int
  st_dev :: int
  st_nlink :: int
  st_uid :: int
  st_gid :: int
  st_size :: int
  st_atime_ns :: "int option"
  st_mtime_ns :: int
  st_ctime_ns :: int

text \<open>The constants of the \<open>stat\<close> module: \<open>S_IFMT\<close> is \<open>0o170000\<close>,
  \<open>S_IFLNK\<close> is \<open>0o120000\<close>, \<open>S_IFREG\<close> is \<open>0o100000\<close>; the write bits are
  \<open>0o200\<close>, \<open>0o020\<close> and \<open>0o002\<close>.\<close>

definition S_IFMT :: "int \<Rightarrow> int" where "S_IFMT mode = mode AND 0xF000"
definition S_ISLNK :: "int \<Rightarrow> bool" where "S_ISLNK mode = (S_IFMT mode = 0xA000)"
definition S_ISREG :: "int \<Rightarrow> bool" where "S_ISREG mode = (S_IFMT mode = 0x8000)"
definition S_IWUSR :: int where "S_IWUSR = 0x80"
definition S_IWGRP :: int where "S_IWGRP = 0x10"
definition S_IWOTH :: int where "S_IWOTH = 0x02"

text \<open>\<open>Attributes.as_readonly\<close>: a copy with the write permissions removed.\<close>

definition as_readonly :: "Attributes \<Rightarrow> Attributes" where
  "as_readonly a = a\<lparr>st_mode := st_mode a AND NOT (S_IWUSR OR S_IWGRP OR S_IWOTH)\<rparr>"

record Metadata =
  attr :: "Attributes option"
  link :: "string option"
  error :: "exn option"

text \<open>\<open>Metadata()\<close>: all three fields default to \<open>None\<close>.\<close>

definition Metadata_default :: Metadata where
  "Metadata_default = \<lparr>attr = None, link = None, error = None\<rparr>"

text \<open>\<open>FileContents\<close>; bytes are lists of 8-bit characters. The fields are called
  \<open>checksum\<close> and \<open>size\<close> in the source; here they carry the prefix \<open>fc_\<close> to keep
  them apart from the fields of \<open>ContentsBlob\<close>.\<close>

type_synonym bytes = "char list"

record FileContents =
  compressed_data :: bytes
  fc_checksum :: string
  fc_size :: int

text \<open>\<open>PrefetchEntry\<close> (fields \<open>path\<close>, \<open>metadata\<close>, \<open>contents\<close> in the source).\<close>

record PrefetchEntry =
  pf_path :: string
  pf_metadata :: Metadata
  pf_contents :: "FileContents option"

section \<open>caching.service: the local cache service\<close>

text \<open>
  The local machine as the service sees it: \<open>os.lstat\<close> (already turned into
  \<open>Attributes\<close> by \<open>Attributes.from_stat\<close>), \<open>os.readlink\<close>, reading a whole file,
  and the two library functions behind \<open>FileContents.from_data\<close>. Each call either
  raises or returns.
\<close>

record LocalFS =
  lstat :: "string \<Rightarrow> exn + Attributes"
  readlink :: "string \<Rightarrow> exn + string"
  read_file :: "string \<Rightarrow> exn + bytes"
  lz4_compress :: "bytes \<Rightarrow> bytes"
  sha256_hexdigest :: "bytes \<Rightarrow> string"

text \<open>The fields of \<open>LocalCacheService\<close> (without the leading underscore).\<close>

record LocalCacheService =
  fetched_metadata :: "string set"
  fetched_contents :: "string set"
  prefetchable_paths :: "string list option"

text \<open>
  \<open>LocalCacheService.get_metadata\<close>. An exception of \<open>os.lstat\<close> or of
  \<open>os.readlink\<close> is stored in the metadata instead of being raised; when
  \<open>os.readlink\<close> fails the attributes have already been stored. The path is recorded
  as fetched in every case.
\<close>

definition svc_get_metadata ::
  "LocalFS \<Rightarrow> LocalCacheService \<Rightarrow> string \<Rightarrow> LocalCacheService \<times> Metadata" where
  "svc_get_metadata fs self path =
     (let metadata =
            (case lstat fs path of
               Inl e \<Rightarrow> Metadata_default\<lparr>error := Some e\<rparr>
             | Inr a \<Rightarrow>
                 (if S_ISLNK (st_mode a) then
                    (case readlink fs path of
                       Inl e \<Rightarrow> Metadata_default\<lparr>attr := Some a, error := Some e\<rparr>
                     | Inr l \<Rightarrow> Metadata_default\<lparr>attr := Some a, link := Some l\<rparr>)
                  else Metadata_default\<lparr>attr := Some a\<rparr>))
      in (self\<lparr>fetched_metadata := insert path (fetched_metadata self)\<rparr>, metadata))"

text \<open>
  \<open>LocalCacheService._significant_meta\<close>: the attributes with the access time
  blanked, the class and arguments of the error, and the link target.
\<close>

definition significant_meta ::
  "Metadata \<Rightarrow> Attributes option \<times> (exc_class \<times> pyval list) option \<times> string option" where
  "significant_meta m =
     (let significant_attribs =
            (case attr m of Some a \<Rightarrow> Some (a\<lparr>st_atime_ns := None\<rparr>) | None \<Rightarrow> None);
          comparable_error =
            (case error m of Some e \<Rightarrow> Some (exc_type e, exc_args e) | None \<Rightarrow> None)
      in (significant_attribs, comparable_error, link m))"

text \<open>
  \<open>LocalCacheService.get_changed_metadata\<close>. The dictionaries are association lists
  in insertion order; \<open>changed_metadata[path] = new_metadata\<close> is \<open>AList.update\<close>.
\<close>

fun get_changed_metadata_loop ::
  "LocalFS \<Rightarrow> (string \<times> Metadata) list \<Rightarrow> LocalCacheService \<times> (string \<times> Metadata) list
     \<Rightarrow> LocalCacheService \<times> (string \<times> Metadata) list" where
  "get_changed_metadata_loop fs [] (self, changed_metadata) = (self, changed_metadata)"
| "get_changed_metadata_loop fs ((path, metadata) # rest) (self, changed_metadata) =
     (let (self', new_metadata) = svc_get_metadata fs self path
      in get_changed_metadata_loop fs rest
           (self',
            if significant_meta new_metadata \<noteq> significant_meta metadata
            then AList.update path new_metadata changed_metadata
            else changed_metadata))"

definition svc_get_changed_metadata ::
  "LocalFS \<Rightarrow> LocalCacheService \<Rightarrow> (string \<times> Metadata) list
     \<Rightarrow> LocalCacheService \<times> (string \<times> Metadata) list" where
  "svc_get_changed_metadata fs self cached_metadata =
     get_changed_metadata_loop fs cached_metadata (self, [])"

text \<open>
  The words of the specification for "the current metadata differs from the cached one
  only in the access-time field": same link, same error, and attributes that agree
  once the access time of one is put into the other.
\<close>

definition differs_only_in_atime :: "Metadata \<Rightarrow> Metadata \<Rightarrow> bool" where
  "differs_only_in_atime m' m =
     (link m' = link m \<and> error m' = error m \<and>
      (case (attr m', attr m) of
         (Some a', Some a) \<Rightarrow> a' = a\<lparr>st_atime_ns := st_atime_ns a'\<rparr>
       | (None, None) \<Rightarrow> True
       | _ \<Rightarrow> False))"

section \<open>posixpath: what \<open>os.path.commonpath\<close> and \<open>os.path.join\<close> compute\<close>

text \<open>\<open>s.split('/')\<close>: the pieces between the separators; \<open>n\<close> separators
  give \<open>n + 1\<close> pieces, some of them possibly empty.\<close>

fun split_sep :: "string \<Rightarrow> string list" where
  "split_sep [] = [[]]"
| "split_sep (c # cs) =
     (if c = CHR ''/'' then [] # split_sep cs
      else (case split_sep cs of w # ws \<Rightarrow> (c # w) # ws | [] \<Rightarrow> [[c]]))"

text \<open>\<open>'/'.join(common)\<close>.\<close>

fun join_sep :: "string list \<Rightarrow> string" where
  "join_sep [] = []"
| "join_sep [c] = c"
| "join_sep (c # d # cs) = c @ CHR ''/'' # join_sep (d # cs)"

text \<open>The components that \<open>commonpath\<close> compares: empty pieces and \<open>'.'\<close> are
  dropped (\<open>[c for c in s if c and c != curdir]\<close>); \<open>'..'\<close> is kept.\<close>

definition path_components :: "string \<Rightarrow> string list" where
  "path_components p = filter (\<lambda>c. c \<noteq> [] \<and> c \<noteq> ''.'') (split_sep p)"

definition isabs :: "string \<Rightarrow> bool" where
  "isabs p = (take 1 p = ''/'')"

text \<open>
  The loop of \<open>commonpath\<close> over the least list \<open>s1\<close>, reading the greatest list
  \<open>s2\<close> by index: the components before the first difference. \<open>s2[i]\<close> raises
  \<open>IndexError\<close> past the end of \<open>s2\<close>.
\<close>

fun common_loop :: "string list \<Rightarrow> string list \<Rightarrow> exn + string list" where
  "common_loop [] s2 = Inr []"
| "common_loop (c # s1) [] = Inl (Exn (Builtin ''IndexError'') [PyStr ''list index out of range''])"
| "common_loop (c # s1) (d # s2) =
     (if c \<noteq> d then Inr []
      else (case common_loop s1 s2 of Inl e \<Rightarrow> Inl e | Inr common \<Rightarrow> Inr (c # common)))"

text \<open>
  \<open>posixpath.commonpath(paths)\<close> for a list of strings. \<open>min\<close> and \<open>max\<close> are
  Python's comparison of lists of strings, which is the lexicographic order of lists
  over the lexicographic order of strings over the code points.
\<close>

definition commonpath :: "string list \<Rightarrow> exn + string" where
  "commonpath paths =
     (if paths = [] then Inl (ValueError [PyStr ''commonpath() arg is an empty sequence''])
      else if \<exists>p \<in> set paths. isabs p \<noteq> isabs (hd paths)
      then Inl (ValueError [PyStr (''Can'' @ CHR 0x27 # ''t mix absolute and relative paths'')])
      else
        let split_paths = map path_components paths;
            s1 = fold min (tl split_paths) (hd split_paths);
            s2 = fold max (tl split_paths) (hd split_paths);
            prefix = (if isabs (hd paths) then ''/'' else [])
        in (case common_loop s1 s2 of
              Inl e \<Rightarrow> Inl e
            | Inr common \<Rightarrow> Inr (prefix @ join_sep common)))"

text \<open>
  \<open>posixpath.join(a, b)\<close> for two strings: an absolute \<open>b\<close> replaces \<open>a\<close>;
  otherwise \<open>b\<close> is appended, after a separator unless \<open>a\<close> is empty or ends with one.
\<close>

definition path_join :: "string \<Rightarrow> string \<Rightarrow> string" where
  "path_join a b =
     (if isabs b then b
      else if a = [] \<or> last a = CHR ''/'' then a @ b
      else a @ CHR ''/'' # b)"

text \<open>
  The generator expression shared by \<open>RemoteCache.is_cacheable\<close> and
  \<open>LocalCacheService._is_prefetchable\<close>:
  \<^verbatim>\<open>any(os.path.commonpath([path, p]) == p for p in paths)\<close>.
  \<open>any\<close> stops at the first true element, and an exception raised before that
  leaves the call.
\<close>

fun any_commonpath :: "string \<Rightarrow> string list \<Rightarrow> exn + bool" where
  "any_commonpath path [] = Inr False"
| "any_commonpath path (p # ps) =
     (case commonpath [path, p] of
        Inl e \<Rightarrow> Inl e
      | Inr c \<Rightarrow> if c = p then Inr True else any_commonpath path ps)"

text \<open>\<open>LocalCacheService.set_prefetchable_paths\<close> and
  \<open>LocalCacheService._is_prefetchable\<close>.\<close>

definition set_prefetchable_paths ::
  "LocalCacheService \<Rightarrow> string list option \<Rightarrow> LocalCacheService" where
  "set_prefetchable_paths self paths = self\<lparr>prefetchable_paths := paths\<rparr>"

definition is_prefetchable :: "LocalCacheService \<Rightarrow> string \<Rightarrow> exn + bool" where
  "is_prefetchable self path =
     (case prefetchable_paths self of
        None \<Rightarrow> Inr True
      | Some paths \<Rightarrow> any_commonpath path paths)"

section \<open>caching.service: prefetching\<close>

text \<open>\<open>prefetching.PrefetchSuggestion\<close> (fields \<open>path\<close> and \<open>contents\<close> in the
  source).\<close>

record PrefetchSuggestion =
  sg_path :: string
  sg_contents :: bool

text \<open>
  The rules of the module \<open>prefetching\<close> look at the local file system and run the
  loader; here they are the two functions that the service calls, each raising or
  returning suggestions.
\<close>

record PrefetchRules =
  file_access :: "string \<Rightarrow> exn + PrefetchSuggestion list"
  file_read :: "string \<Rightarrow> exn + PrefetchSuggestion list"

text \<open>\<open>FileContents.from_data\<close> and \<open>LocalCacheService.readfile\<close>: the path is
  recorded as fetched after a successful read.\<close>

definition from_data :: "LocalFS \<Rightarrow> bytes \<Rightarrow> FileContents" where
  "from_data fs d =
     \<lparr>compressed_data = lz4_compress fs d, fc_checksum = sha256_hexdigest fs d,
      fc_size = int (length d)\<rparr>"

definition svc_readfile ::
  "LocalFS \<Rightarrow> LocalCacheService \<Rightarrow> string \<Rightarrow> LocalCacheService \<times> (exn + FileContents)" where
  "svc_readfile fs self p =
     (case read_file fs p of
        Inl e \<Rightarrow> (self, Inl e)
      | Inr d \<Rightarrow> (self\<lparr>fetched_contents := insert p (fetched_contents self)\<rparr>,
                  Inr (from_data fs d)))"

text \<open>
  \<open>LocalCacheService._resolve_prefetches\<close>. The suggestions are grouped by path in
  a \<open>defaultdict(list)\<close>, in the order of their first occurrence. The loop over the
  groups skips what is not prefetchable or already fetched; an exception of
  \<open>_is_prefetchable\<close> leaves the function; a failing read of the contents is logged
  and leaves the contents empty.
\<close>

definition group_suggestions ::
  "PrefetchSuggestion list \<Rightarrow> (string \<times> PrefetchSuggestion list) list" where
  "group_suggestions suggestions =
     fold (\<lambda>s by_path. AList.map_default (sg_path s) [s] (\<lambda>l. l @ [s]) by_path) suggestions []"

fun resolve_loop ::
  "LocalFS \<Rightarrow> (string \<times> PrefetchSuggestion list) list
     \<Rightarrow> LocalCacheService \<times> PrefetchEntry list
     \<Rightarrow> LocalCacheService \<times> (exn + PrefetchEntry list)" where
  "resolve_loop fs [] (self, prefetches) = (self, Inr prefetches)"
| "resolve_loop fs ((p, path_suggestions) # rest) (self, prefetches) =
     (case is_prefetchable self p of
        Inl e \<Rightarrow> (self, Inl e)
      | Inr ok \<Rightarrow>
          (if \<not> ok then resolve_loop fs rest (self, prefetches)
           else
             let prefetch_contents = list_ex sg_contents path_suggestions
             in if prefetch_contents \<and> p \<in> fetched_contents self
                then resolve_loop fs rest (self, prefetches)
                else if \<not> prefetch_contents \<and> p \<in> fetched_metadata self
                then resolve_loop fs rest (self, prefetches)
                else
                  let (self1, metadata) = svc_get_metadata fs self p;
                      (self2, cont) =
                        (if prefetch_contents \<and> error metadata = None then
                           (case svc_readfile fs self1 p of
                              (self', Inl e) \<Rightarrow> (self', None)
                            | (self', Inr c) \<Rightarrow> (self', Some c))
                         else (self1, None))
                  in resolve_loop fs rest
                       (self2,
                        prefetches @
                          [\<lparr>pf_path = p, pf_metadata = metadata, pf_contents = cont\<rparr>])))"

definition resolve_prefetches ::
  "LocalFS \<Rightarrow> LocalCacheService \<Rightarrow> PrefetchSuggestion list
     \<Rightarrow> LocalCacheService \<times> (exn + PrefetchEntry list)" where
  "resolve_prefetches fs self suggestions =
     resolve_loop fs (group_suggestions suggestions) (self, [])"

text \<open>
  \<open>LocalCacheService.get_metadata_prefetch\<close> and
  \<open>LocalCacheService.readfile_prefetch\<close>. \<open>except Exception\<close> around the rules and
  the resolver gives the primary result with an empty list. The primary read of
  \<open>readfile_prefetch\<close> is outside of the \<open>try\<close>, so its exception is raised;
  \<open>get_metadata\<close> does not raise.
\<close>

definition svc_get_metadata_prefetch ::
  "PrefetchRules \<Rightarrow> LocalFS \<Rightarrow> LocalCacheService \<Rightarrow> string
     \<Rightarrow> LocalCacheService \<times> (Metadata \<times> PrefetchEntry list)" where
  "svc_get_metadata_prefetch rules fs self p =
     (let (self1, base) = svc_get_metadata fs self p
      in case file_access rules p of
           Inl e \<Rightarrow> (self1, (base, []))
         | Inr suggestions \<Rightarrow>
             (case resolve_prefetches fs self1 suggestions of
                (self2, Inl e) \<Rightarrow> (self2, (base, []))
              | (self2, Inr prefetches) \<Rightarrow> (self2, (base, prefetches))))"

definition svc_readfile_prefetch ::
  "PrefetchRules \<Rightarrow> LocalFS \<Rightarrow> LocalCacheService \<Rightarrow> string
     \<Rightarrow> LocalCacheService \<times> (exn + FileContents \<times> PrefetchEntry list)" where
  "svc_readfile_prefetch rules fs self p =
     (case svc_readfile fs self p of
        (self1, Inl e) \<Rightarrow> (self1, Inl e)
      | (self1, Inr base) \<Rightarrow>
          (case file_read rules p of
             Inl e \<Rightarrow> (self1, Inr (base, []))
           | Inr suggestions \<Rightarrow>
               (case resolve_prefetches fs self1 suggestions of
                  (self2, Inl e) \<Rightarrow> (self2, Inr (base, []))
                | (self2, Inr prefetches) \<Rightarrow> (self2, Inr (base, prefetches)))))"

section \<open>caching.cache: the remote cache\<close>

text \<open>\<open>ContentsBlob\<close>; the field \<open>size\<close> of the source is \<open>blob_size\<close> here
  (\<open>size\<close> is a constant of HOL).\<close>

record ContentsBlob =
  storage :: string
  blob_size :: int
  checksum :: string
  dirty :: bool

text \<open>\<open>CacheEntry\<close>. Time stamps are the seconds of \<open>time.time()\<close>, as real
  numbers.\<close>

record CacheEntry =
  path :: string
  meta :: Metadata
  last_access :: real
  last_update :: real
  contents :: "ContentsBlob option"

definition newer_than :: "CacheEntry \<Rightarrow> CacheEntry option \<Rightarrow> bool" where
  "newer_than self other =
     (case other of None \<Rightarrow> True | Some other' \<Rightarrow> last_update self > last_update other')"

text \<open>
  The fields of \<open>RemoteCache\<close> (without the leading underscore). The dictionary
  \<open>_entries\<close> is an association list in insertion order: \<open>d[k] = v\<close> is
  \<open>AList.update\<close>, \<open>del d[k]\<close> is \<open>AList.delete\<close>, lookup is \<open>map_of\<close>, and
  the mutation of an entry object that the dictionary holds is \<open>AList.map_entry\<close>.
\<close>

record RemoteCache =
  base_path :: string
  machine_id :: string
  prefetch :: bool
  max_entries :: int
  max_size :: int
  cacheable_paths :: "string list"
  entries :: "(string \<times> CacheEntry) list"

text \<open>
  The RPC client of the cache: the calls of the local cache service as the remote side
  sees them. Each call raises or returns.
\<close>

record Client =
  rpc_get_metadata :: "string \<Rightarrow> exn + Metadata"
  rpc_get_metadata_prefetch :: "string \<Rightarrow> exn + Metadata \<times> PrefetchEntry list"
  rpc_readfile :: "string \<Rightarrow> exn + FileContents"
  rpc_readfile_prefetch :: "string \<Rightarrow> exn + FileContents \<times> PrefetchEntry list"
  rpc_readfile_conditional :: "string \<Rightarrow> string \<Rightarrow> exn + FileContents option"
  rpc_get_changed_metadata :: "(string \<times> Metadata) list \<Rightarrow> exn + (string \<times> Metadata) list"
  rpc_mark_previously_fetched_contents :: "string list \<Rightarrow> exn + unit"

text \<open>
  What the cache touches outside of its own object: the names of the files in the
  contents directory (\<open>os.listdir\<close>), what reading and decoding the index file
  gives (an exception when the file is missing or unreadable), the values that
  \<open>uuid.uuid4().hex\<close> returns, in order, with the number of values drawn so far, and the
  keys whose entry lock another thread holds.
\<close>

record World =
  contents_dir :: "string list"
  index_json :: "exn + (string \<times> CacheEntry) list"
  uuid4_hex :: "nat \<Rightarrow> string"
  uuids_drawn :: nat
  locked_elsewhere :: "string set"

type_synonym cache_state = "RemoteCache \<times> World"

definition count :: "RemoteCache \<Rightarrow> nat" where
  "count self = length (entries self)"

text \<open>The bytes of the contents of one entry, and of a dictionary of entries.\<close>

definition contents_bytes :: "CacheEntry \<Rightarrow> int" where
  "contents_bytes e = (case contents e of Some b \<Rightarrow> blob_size b | None \<Rightarrow> 0)"

definition total_bytes :: "(string \<times> CacheEntry) list \<Rightarrow> int" where
  "total_bytes es = sum_list (map (\<lambda>(k, e). contents_bytes e) es)"

text \<open>\<open>RemoteCache.size\<close> (\<open>cache_size\<close> here): the bytes of the cached contents.\<close>

definition cache_size :: "RemoteCache \<Rightarrow> int" where
  "cache_size self = total_bytes (entries self)"

definition is_cacheable :: "RemoteCache \<Rightarrow> string \<Rightarrow> exn + bool" where
  "is_cacheable self p = any_commonpath p (cacheable_paths self)"

definition entry_key :: "RemoteCache \<Rightarrow> string \<Rightarrow> string" where
  "entry_key self p = machine_id self @ '':'' @ p"

definition cache_index_path :: "RemoteCache \<Rightarrow> string" where
  "cache_index_path self = path_join (base_path self) ''index.json''"

definition cache_contents_path :: "RemoteCache \<Rightarrow> string" where
  "cache_contents_path self = path_join (base_path self) ''contents''"

text \<open>The files of the contents directory by their full paths, and whether a path
  names one of them.\<close>

definition blob_files :: "RemoteCache \<Rightarrow> World \<Rightarrow> string set" where
  "blob_files self w = set (map (path_join (cache_contents_path self)) (contents_dir w))"

text \<open>
  \<open>RemoteCache._save_contents\<close>: a new file in the contents directory, named by a
  fresh \<open>uuid4\<close>; the blob starts clean (\<open>dirty\<close> defaults to \<open>False\<close>).
\<close>

definition save_contents :: "FileContents \<Rightarrow> cache_state \<Rightarrow> cache_state \<times> ContentsBlob" where
  "save_contents cont st =
     (let (self, w) = st;
          name = uuid4_hex w (uuids_drawn w);
          storage' = path_join (cache_contents_path self) name;
          w' = w\<lparr>contents_dir := (if name \<in> set (contents_dir w) then contents_dir w
                                    else contents_dir w @ [name]),
                 uuids_drawn := Suc (uuids_drawn w)\<rparr>
      in ((self, w'),
          \<lparr>storage = storage', blob_size = fc_size cont, checksum = fc_checksum cont,
           dirty = False\<rparr>))"

text \<open>
  \<open>RemoteCache._try_store_prefetches\<close>. The caller holds the lock of the key of
  \<open>path\<close>; a non-blocking acquire fails for that key and for the keys locked by other
  threads. A new entry gets \<open>last_access = 0\<close>; its \<open>last_update\<close> is the default
  \<open>time.time()\<close>. \<open>now\<close> is the reading of the clock during the call.
  \<open>store_prefetch\<close> is the body of the loop, for one prefetch.
\<close>

definition store_prefetch :: "real \<Rightarrow> string \<Rightarrow> PrefetchEntry \<Rightarrow> cache_state \<Rightarrow> cache_state" where
  "store_prefetch now p pf st =
     (let (self, w) = st;
          key = entry_key self (pf_path pf);
          acquired = (key \<notin> locked_elsewhere w \<and> key \<noteq> entry_key self p)
      in if \<not> acquired \<and> pf_path pf \<noteq> p then st
         else
           let self1 =
                 (if key \<notin> fst ` set (entries self) then
                    self\<lparr>entries := AList.update key
                            \<lparr>path = pf_path pf, meta = pf_metadata pf, last_access = 0,
                             last_update = now, contents = None\<rparr> (entries self)\<rparr>
                  else self)
           in case (pf_contents pf, map_of (entries self1) key) of
                (Some cont, Some entry) \<Rightarrow>
                  (if (case contents entry of None \<Rightarrow> True | Some b \<Rightarrow> dirty b) then
                     (let ((self', w'), blob) = save_contents cont (self1, w)
                      in (self'\<lparr>entries := AList.map_entry key
                                  (\<lambda>e. e\<lparr>contents := Some blob\<rparr>) (entries self')\<rparr>, w'))
                   else (self1, w))
              | _ \<Rightarrow> (self1, w))"

definition try_store_prefetches ::
  "real \<Rightarrow> string \<Rightarrow> PrefetchEntry list \<Rightarrow> cache_state \<Rightarrow> cache_state" where
  "try_store_prefetches now p prefetches st = fold (store_prefetch now p) prefetches st"

text \<open>
  \<open>RemoteCache._lock_entry\<close>, up to the \<open>yield\<close>: the state in which the body of the
  \<open>with\<close> statement runs, or the exception of the metadata fetch. A new
  \<open>CacheEntry\<close> takes both time stamps from \<open>time.time()\<close>.
\<close>

definition lock_entry ::
  "Client \<Rightarrow> real \<Rightarrow> string \<Rightarrow> cache_state \<Rightarrow> exn + cache_state" where
  "lock_entry cl now p st =
     (let (self, w) = st; key = entry_key self p
      in if key \<notin> fst ` set (entries self) then
           (if prefetch self then
              (case rpc_get_metadata_prefetch cl p of
                 Inl e \<Rightarrow> Inl e
               | Inr (metadata, prefetches) \<Rightarrow>
                   Inr (try_store_prefetches now p prefetches
                          (self\<lparr>entries := AList.update key
                                  \<lparr>path = p, meta = metadata, last_access = now,
                                   last_update = now, contents = None\<rparr> (entries self)\<rparr>, w)))
            else
              (case rpc_get_metadata cl p of
                 Inl e \<Rightarrow> Inl e
               | Inr metadata \<Rightarrow>
                   Inr (self\<lparr>entries := AList.update key
                               \<lparr>path = p, meta = metadata, last_access = now,
                                last_update = now, contents = None\<rparr> (entries self)\<rparr>, w)))
         else
           Inr (self\<lparr>entries := AList.map_entry key (\<lambda>e. e\<lparr>last_access := now\<rparr>)
                                  (entries self)\<rparr>, w))"

text \<open>
  \<open>RemoteCache.get_metadata\<close>. The result is the state after the call together with
  the exception raised or the metadata returned. The entry is not written to after
  \<open>_lock_entry\<close>; the returned metadata is a copy.
\<close>

definition get_metadata ::
  "Client \<Rightarrow> real \<Rightarrow> string \<Rightarrow> cache_state \<Rightarrow> cache_state \<times> (exn + Metadata)" where
  "get_metadata cl now p st =
     (case lock_entry cl now p st of
        Inl e \<Rightarrow> (st, Inl e)
      | Inr (self, w) \<Rightarrow>
          (case map_of (entries self) (entry_key self p) of
             None \<Rightarrow> ((self, w), Inl (KeyError [PyStr (entry_key self p)]))
           | Some entry \<Rightarrow>
               (let m = meta entry
                in case error m of
                     Some e \<Rightarrow> ((self, w), Inl e)
                   | None \<Rightarrow>
                       (case attr m of
                          None \<Rightarrow> ((self, w), Inl (ValueError [PyStr ''entry is missing attributes'']))
                        | Some a \<Rightarrow> ((self, w), Inr (m\<lparr>attr := Some (as_readonly a)\<rparr>))))))"

text \<open>
  \<open>RemoteCache._update_contents\<close>, for the entry stored under \<open>key\<close>. With
  cached contents and no force, a conditional read: unchanged contents keep the blob and
  clear its dirty bit. Otherwise a full read (with prefetches when enabled) and a new
  blob.
\<close>

definition update_contents ::
  "Client \<Rightarrow> real \<Rightarrow> string \<Rightarrow> bool \<Rightarrow> cache_state \<Rightarrow> cache_state \<times> (exn + ContentsBlob)" where
  "update_contents cl now key force st =
     (let (self, w) = st
      in case map_of (entries self) key of
           None \<Rightarrow> (st, Inl (KeyError [PyStr key]))
         | Some entry \<Rightarrow>
             (case (force, contents entry) of
                (False, Some b) \<Rightarrow>
                  (case rpc_readfile_conditional cl (path entry) (checksum b) of
                     Inl e \<Rightarrow> (st, Inl e)
                   | Inr None \<Rightarrow>
                       ((self\<lparr>entries := AList.map_entry key
                                 (\<lambda>e. e\<lparr>contents := Some (b\<lparr>dirty := False\<rparr>)\<rparr>)
                                 (entries self)\<rparr>, w),
                        Inr (b\<lparr>dirty := False\<rparr>))
                   | Inr (Some cont) \<Rightarrow>
                       (let (st', blob) = save_contents cont st in (st', Inr blob)))
              | _ \<Rightarrow>
                  (if prefetch self then
                     (case rpc_readfile_prefetch cl (path entry) of
                        Inl e \<Rightarrow> (st, Inl e)
                      | Inr (cont, prefetches) \<Rightarrow>
                          (let st1 = try_store_prefetches now (path entry) prefetches st;
                               (st2, blob) = save_contents cont st1
                           in (st2, Inr blob)))
                   else
                     (case rpc_readfile cl (path entry) of
                        Inl e \<Rightarrow> (st, Inl e)
                      | Inr cont \<Rightarrow>
                          (let (st', blob) = save_contents cont st in (st', Inr blob))))))"

text \<open>An open file descriptor: the file it was opened on, and the flags.\<close>

datatype fd = Fd string int

text \<open>\<open>entry.contents = blob\<close> for the entry stored under \<open>key\<close>.\<close>

definition set_contents :: "string \<Rightarrow> ContentsBlob option \<Rightarrow> RemoteCache \<Rightarrow> RemoteCache" where
  "set_contents key blob self =
     self\<lparr>entries := AList.map_entry key (\<lambda>e. e\<lparr>contents := blob\<rparr>) (entries self)\<rparr>"

text \<open>
  The \<open>while True\<close> loop of \<open>RemoteCache.open_contents\<close>. Other sessions share the
  cache directory and delete, in their own garbage collection, the blobs that their
  index does not reference: \<open>others n\<close> is what they do to the contents directory
  before the \<open>n\<close>-th call of \<open>os.open\<close>. \<open>os.open\<close> raises
  \<open>FileNotFoundError\<close> when the blob file is not there; then the contents are
  refreshed by force and the loop goes round again. The loop is left by a successful
  \<open>os.open\<close> or by an exception of the refresh; \<open>None\<close> is the loop that never
  ends.
\<close>

partial_function (option) open_loop ::
  "Client \<Rightarrow> real \<Rightarrow> (nat \<Rightarrow> string list \<Rightarrow> string list) \<Rightarrow> string \<Rightarrow> int \<Rightarrow> nat
     \<Rightarrow> cache_state \<Rightarrow> (cache_state \<times> (exn + fd)) option" where
  "open_loop cl now others key flags n st =
     (let self = fst st;
          w = (snd st)\<lparr>contents_dir := others n (contents_dir (snd st))\<rparr>
      in case map_of (entries self) key of
           None \<Rightarrow> Some ((self, w), Inl (KeyError [PyStr key]))
         | Some entry \<Rightarrow>
             (case contents entry of
                None \<Rightarrow> Some ((self, w), Inl (Exn (Builtin ''AttributeError'') []))
              | Some blob \<Rightarrow>
                  (if storage blob \<in> blob_files self w
                   then Some ((self, w), Inr (Fd (storage blob) flags))
                   else
                     (case update_contents cl now key True (self, w) of
                        (st2, Inl e) \<Rightarrow> Some (st2, Inl e)
                      | (st2, Inr blob') \<Rightarrow>
                          open_loop cl now others key flags (Suc n)
                            (set_contents key (Some blob') (fst st2), snd st2)))))"

text \<open>\<open>RemoteCache.open_contents\<close>.\<close>

definition open_contents ::
  "Client \<Rightarrow> real \<Rightarrow> (nat \<Rightarrow> string list \<Rightarrow> string list) \<Rightarrow> string \<Rightarrow> int
     \<Rightarrow> cache_state \<Rightarrow> (cache_state \<times> (exn + fd)) option" where
  "open_contents cl now others p flags st =
     (case lock_entry cl now p st of
        Inl e \<Rightarrow> Some (st, Inl e)
      | Inr (self, w) \<Rightarrow>
          (let key = entry_key self p
           in case map_of (entries self) key of
                None \<Rightarrow> Some ((self, w), Inl (KeyError [PyStr key]))
              | Some entry \<Rightarrow>
                  (if (case contents entry of None \<Rightarrow> True | Some b \<Rightarrow> dirty b) then
                     (case update_contents cl now key False (self, w) of
                        (st1, Inl e) \<Rightarrow> Some (st1, Inl e)
                      | (st1, Inr blob) \<Rightarrow>
                          open_loop cl now others key flags 0
                            (set_contents key (Some blob) (fst st1), snd st1))
                   else open_loop cl now others key flags 0 (self, w))))"

text \<open>\<open>RemoteCache._read_disk_entries\<close> and \<open>RemoteCache.load\<close>.\<close>

definition read_disk_entries :: "World \<Rightarrow> exn + (string \<times> CacheEntry) list" where
  "read_disk_entries w = index_json w"

definition load :: "cache_state \<Rightarrow> cache_state \<times> (exn + unit)" where
  "load st =
     (case read_disk_entries (snd st) of
        Inl e \<Rightarrow> (st, Inl e)
      | Inr disk_entries \<Rightarrow> (((fst st)\<lparr>entries := disk_entries\<rparr>, snd st), Inr ()))"

text \<open>
  The loop of \<open>RemoteCache._lru_cleanup\<close> over the sorted items. The state is the
  dictionary with the two counters \<open>entry_count\<close> and \<open>contents_size\<close>. The items
  are the entry objects of the dictionary, each visited once, so an entry's contents
  are read from the item and written in the dictionary.
\<close>

fun lru_loop ::
  "int \<Rightarrow> int \<Rightarrow> (string \<times> CacheEntry) list \<Rightarrow> (string \<times> CacheEntry) list \<times> int \<times> int
     \<Rightarrow> (string \<times> CacheEntry) list \<times> int \<times> int" where
  "lru_loop max_e max_s [] state = state"
| "lru_loop max_e max_s ((key, entry) # oldest_entries) (es, entry_count, contents_size) =
     (let (es1, contents_size1) =
            (case contents entry of
               Some b \<Rightarrow>
                 (if contents_size > max_s
                  then (AList.map_entry key (\<lambda>e. e\<lparr>contents := None\<rparr>) es,
                        contents_size - blob_size b)
                  else (es, contents_size))
             | None \<Rightarrow> (es, contents_size));
          (es2, entry_count2) =
            (if entry_count > max_e then (AList.delete key es1, entry_count - 1)
             else (es1, entry_count))
      in lru_loop max_e max_s oldest_entries (es2, entry_count2, contents_size1))"

text \<open>\<open>RemoteCache._lru_cleanup\<close>; \<open>list.sort\<close> is stable, as \<open>sort_key\<close> is.\<close>

definition lru_cleanup :: "RemoteCache \<Rightarrow> RemoteCache" where
  "lru_cleanup self =
     (let oldest_entries = sort_key (\<lambda>(k, e). last_access e) (entries self);
          entry_count = int (length oldest_entries);
          contents_size = total_bytes oldest_entries
      in self\<lparr>entries :=
           fst (lru_loop (max_entries self) (max_size self) oldest_entries
                  (entries self, entry_count, contents_size))\<rparr>)"

text \<open>
  \<open>RemoteCache._garbage_collect_blobs\<close>: every file of the contents directory is an
  orphan until an entry's blob names it; \<open>set.remove\<close> of a path that is not there
  (\<open>KeyError\<close>) is passed over; the orphans are removed from the directory.
\<close>

definition garbage_collect_blobs :: "RemoteCache \<Rightarrow> World \<Rightarrow> World" where
  "garbage_collect_blobs self w =
     (let orphans0 = set (map (path_join (cache_contents_path self)) (contents_dir w));
          orphans =
            fold (\<lambda>(k, entry) orph.
                    case contents entry of Some b \<Rightarrow> orph - {storage b} | None \<Rightarrow> orph)
                 (entries self) orphans0
      in w\<lparr>contents_dir :=
            filter (\<lambda>fn. path_join (cache_contents_path self) fn \<notin> orphans) (contents_dir w)\<rparr>)"

text \<open>
  The merge of \<open>RemoteCache.save\<close>: an unreadable or missing index gives nothing to
  merge; an entry of the disk that is newer than the one in memory, or new, is installed.
\<close>

definition merge_disk_cache :: "RemoteCache \<Rightarrow> World \<Rightarrow> RemoteCache" where
  "merge_disk_cache self w =
     (let disk_entries = (case read_disk_entries w of Inl e \<Rightarrow> [] | Inr d \<Rightarrow> d)
      in self\<lparr>entries :=
           fold (\<lambda>(key, disk_entry) es.
                   if newer_than disk_entry (map_of es key)
                   then AList.update key disk_entry es else es)
                disk_entries (entries self)\<rparr>)"

text \<open>\<open>RemoteCache.save\<close>: merge, LRU pass, garbage collection, and the index written
  from the entries in memory.\<close>

definition save :: "bool \<Rightarrow> cache_state \<Rightarrow> cache_state" where
  "save merge st =
     (let (self, w) = st;
          self1 = (if merge then merge_disk_cache self w else self);
          self2 = lru_cleanup self1;
          w1 = garbage_collect_blobs self2 w
      in (self2, w1\<lparr>index_json := Inr (entries self2)\<rparr>))"

text \<open>
  \<open>RemoteCache.sync\<close>. The body of its loop, for the entry stored under \<open>key\<close>: new
  metadata, \<open>last_update\<close> reset, and the contents dropped (error, or not a regular
  file any more) or marked dirty.
\<close>

definition sync_entry :: "real \<Rightarrow> Metadata \<Rightarrow> CacheEntry \<Rightarrow> CacheEntry" where
  "sync_entry now new_metadata entry =
     (let e1 = entry\<lparr>meta := new_metadata, last_update := now\<rparr>
      in case contents e1 of
           None \<Rightarrow> e1
         | Some b \<Rightarrow>
             (if error new_metadata \<noteq> None then e1\<lparr>contents := None\<rparr>
              else if (case attr new_metadata of
                         Some a \<Rightarrow> \<not> S_ISREG (st_mode a) | None \<Rightarrow> False)
              then e1\<lparr>contents := None\<rparr>
              else e1\<lparr>contents := Some (b\<lparr>dirty := True\<rparr>)\<rparr>))"

fun sync_loop ::
  "Client \<Rightarrow> real \<Rightarrow> (string \<times> Metadata) list \<Rightarrow> cache_state \<Rightarrow> cache_state \<times> (exn + unit)" where
  "sync_loop cl now [] st = (st, Inr ())"
| "sync_loop cl now ((p, new_metadata) # changed_metadata) st =
     (case lock_entry cl now p st of
        Inl e \<Rightarrow> (st, Inl e)
      | Inr (self, w) \<Rightarrow>
          sync_loop cl now changed_metadata
            (self\<lparr>entries := AList.map_entry (entry_key self p)
                     (sync_entry now new_metadata) (entries self)\<rparr>, w))"

definition sync :: "Client \<Rightarrow> real \<Rightarrow> cache_state \<Rightarrow> cache_state \<times> (exn + unit)" where
  "sync cl now st =
     (let self = fst st;
          cached_metadata =
            fold (\<lambda>(key, entry) d.
                    if prefix (machine_id self) key
                    then AList.update (path entry) (meta entry) d else d)
                 (entries self) []
      in if length cached_metadata = 0 then (st, Inr ())
         else
           (case rpc_get_changed_metadata cl cached_metadata of
              Inl e \<Rightarrow> (st, Inl e)
            | Inr changed_metadata \<Rightarrow>
                (case sync_loop cl now changed_metadata st of
                   (st', Inl e) \<Rightarrow> (st', Inl e)
                 | (st', Inr u) \<Rightarrow>
                     (if prefetch (fst st') then
                        (case rpc_mark_previously_fetched_contents cl
                                (map (\<lambda>(k, entry). path entry)
                                   (filter (\<lambda>(k, entry).
                                        case contents entry of
                                          Some b \<Rightarrow> \<not> dirty b | None \<Rightarrow> False)
                                      (entries (fst st')))) of
                           Inl e \<Rightarrow> (st', Inl e)
                         | Inr u' \<Rightarrow> (st', Inr ()))
                      else (st', Inr ())))))"

text \<open>A file system with one regular file, to run the service on.\<close>

definition file_attr :: Attributes where
  "file_attr = \<lparr>st_mode = 0x81A4, st_ino = 7, st_dev = 1, st_nlink = 1, st_uid = 1000,
     st_gid = 1000, st_size = 3, st_atime_ns = Some 500, st_mtime_ns = 100,
     st_ctime_ns = 100\<rparr>"

definition one_file_fs :: LocalFS where
  "one_file_fs =
     \<lparr>lstat = (\<lambda>p. if p = ''/usr/lib/libc.so'' then Inr file_attr
                     else Inl (FileNotFoundError [PyInt 2, PyStr ''No such file or directory''])),
      readlink = (\<lambda>p. Inl (Exn (Builtin ''OSError'') [PyInt 22, PyStr ''Invalid argument''])),
      read_file = (\<lambda>p. if p = ''/usr/lib/libc.so'' then Inr ''foo''
                     else Inl (FileNotFoundError [PyInt 2, PyStr ''No such file or directory''])),
      lz4_compress = (\<lambda>d. d),
      sha256_hexdigest = (\<lambda>d. d)\<rparr>"

definition new_service :: LocalCacheService where
  "new_service = \<lparr>fetched_metadata = {}, fetched_contents = {}, prefetchable_paths = None\<rparr>"

text \<open>A cache with three entries (one with attributes, one with an error, one with
  neither), a client and a world to run it in.\<close>

definition file_meta :: Metadata where
  "file_meta = \<lparr>attr = Some file_attr, link = None, error = None\<rparr>"

definition gone_meta :: Metadata where
  "gone_meta = \<lparr>attr = None, link = None,
     error = Some (FileNotFoundError [PyInt 2, PyStr ''No such file or directory''])\<rparr>"

definition sample_cache :: RemoteCache where
  "sample_cache =
     \<lparr>base_path = ''/cache'', machine_id = ''m1'', prefetch = False, max_entries = 1024,
      max_size = 1024, cacheable_paths = [''/usr'', ''/etc''],
      entries =
        [(''m1:/usr/lib/libc.so'',
          \<lparr>path = ''/usr/lib/libc.so'', meta = file_meta, last_access = 10, last_update = 5,
           contents = None\<rparr>),
         (''m1:/usr/gone'',
          \<lparr>path = ''/usr/gone'', meta = gone_meta, last_access = 11, last_update = 6,
           contents = None\<rparr>),
         (''m1:/usr/odd'',
          \<lparr>path = ''/usr/odd'', meta = Metadata_default, last_access = 12, last_update = 7,
           contents = None\<rparr>)]\<rparr>"

definition foo_contents :: FileContents where
  "foo_contents = \<lparr>compressed_data = ''foo'', fc_checksum = ''2c26b46b'', fc_size = 3\<rparr>"

definition sample_client :: Client where
  "sample_client =
     \<lparr>rpc_get_metadata = (\<lambda>p. Inr file_meta),
      rpc_get_metadata_prefetch = (\<lambda>p. Inr (file_meta, [])),
      rpc_readfile = (\<lambda>p. Inr foo_contents),
      rpc_readfile_prefetch = (\<lambda>p. Inr (foo_contents, [])),
      rpc_readfile_conditional = (\<lambda>p c. Inr None),
      rpc_get_changed_metadata = (\<lambda>d. Inr []),
      rpc_mark_previously_fetched_contents = (\<lambda>ps. Inr ())\<rparr>"

definition sample_world :: World where
  "sample_world =
     \<lparr>contents_dir = [],
      index_json = Inl (FileNotFoundError [PyInt 2, PyStr ''No such file or directory'']),
      uuid4_hex = (\<lambda>n. replicate (Suc n) CHR ''a''),
      uuids_drawn = 0,
      locked_elsewhere = {}\<rparr>"

text \<open>
  Two notions for the proofs about \<open>open_contents\<close>. A state \<open>extends\<close> another
  when the cache directory is the same, no key has gone and no blob file has gone. The
  loop is \<open>starved\<close> when another process empties the contents directory before each
  \<open>os.open\<close>, while every read of the client succeeds, prefetching is off and the
  entry has contents.
\<close>

definition extends :: "cache_state \<Rightarrow> cache_state \<Rightarrow> bool" where
  "extends st st' \<longleftrightarrow>
     base_path (fst st') = base_path (fst st) \<and>
     fst ` set (entries (fst st)) \<subseteq> fst ` set (entries (fst st')) \<and>
     blob_files (fst st) (snd st) \<subseteq> blob_files (fst st') (snd st')"

definition starved :: "Client \<Rightarrow> (nat \<Rightarrow> string list \<Rightarrow> string list) \<Rightarrow> string \<Rightarrow> cache_state \<Rightarrow> bool" where
  "starved cl others key st \<longleftrightarrow>
     others = (\<lambda>n dir. []) \<and> (\<forall>p. \<exists>c. rpc_readfile cl p = Inr c) \<and>
     \<not> prefetch (fst st) \<and>
     (\<exists>entry b. map_of (entries (fst st)) key = Some entry \<and> contents entry = Some b)"

text \<open>A cache whose index names a blob file that is not in the contents directory.\<close>

definition stale_cache :: RemoteCache where
  "stale_cache =
     \<lparr>base_path = ''/cache'', machine_id = ''m1'', prefetch = False, max_entries = 1024,
      max_size = 1024, cacheable_paths = [''/usr'', ''/etc''],
      entries =
        [(''m1:/usr/lib/libc.so'',
          \<lparr>path = ''/usr/lib/libc.so'', meta = file_meta, last_access = 10, last_update = 5,
           contents = Some \<lparr>storage = ''/cache/contents/old'', blob_size = 3,
                            checksum = ''2c26b46b'', dirty = False\<rparr>\<rparr>)]\<rparr>"





definition bare_client :: Client where
  "bare_client = sample_client\<lparr>rpc_get_metadata := (\<lambda>p. Inr Metadata_default)\<rparr>"

text \<open>
  The outcome of \<open>get_metadata\<close> in the words of the specification, for an entry whose
  metadata is \<open>m\<close>: the stored error is raised; without error and without attributes,
  \<open>ValueError\<close>; otherwise the read-only copy is returned.
\<close>

definition metadata_outcome :: "Metadata \<Rightarrow> exn + Metadata" where
  "metadata_outcome m =
     (case error m of
        Some e \<Rightarrow> Inl e
      | None \<Rightarrow>
          (case attr m of
             None \<Rightarrow> Inl (ValueError [PyStr ''entry is missing attributes''])
           | Some a \<Rightarrow> Inr (m\<lparr>attr := Some (as_readonly a)\<rparr>)))"

text \<open>The blob files that the entries of a dictionary name.\<close>

definition referenced_blobs :: "(string \<times> CacheEntry) list \<Rightarrow> string set" where
  "referenced_blobs es = {storage b |k e b. (k, e) \<in> set es \<and> contents e = Some b}"

text \<open>A contents directory with the blob of \<open>stale_cache\<close> and a file that no entry
  names; rules that suggest a relative path, and rules that raise; a service whose
  prefetchable paths are set.\<close>

definition gc_world :: World where
  "gc_world = sample_world\<lparr>contents_dir := [''old'', ''junk'']\<rparr>"

definition relative_rules :: PrefetchRules where
  "relative_rules =
     \<lparr>file_access = (\<lambda>p. Inr [\<lparr>sg_path = ''lib/libm.so'', sg_contents = False\<rparr>]),
      file_read = (\<lambda>p. Inr [\<lparr>sg_path = ''lib/libm.so'', sg_contents = True\<rparr>])\<rparr>"

definition failing_rules :: PrefetchRules where
  "failing_rules =
     \<lparr>file_access = (\<lambda>p. Inl (Exn (Builtin ''OSError'') [PyInt 5, PyStr ''Input/output error''])),
      file_read = (\<lambda>p. Inl (Exn (Builtin ''OSError'') [PyInt 5, PyStr ''Input/output error'']))\<rparr>"

definition usr_service :: LocalCacheService where
  "usr_service = set_prefetchable_paths new_service (Some [''/usr''])"

text \<open>
  Notions for the LRU pass. \<open>has_contents\<close>: the entry under a key is there and has
  contents. \<open>lru_inv\<close>: the items still to visit have distinct keys and are the
  entries of the dictionary, whose keys are distinct. \<open>lru_round\<close> is one round of
  \<open>lru_loop\<close>, written with its two decisions. \<open>nonneg_sizes\<close>: no blob has a negative
  size.
\<close>

definition has_contents :: "(string \<times> CacheEntry) list \<Rightarrow> string \<Rightarrow> bool" where
  "has_contents es k \<longleftrightarrow> (\<exists>e b. map_of es k = Some e \<and> contents e = Some b)"

definition lru_inv :: "(string \<times> CacheEntry) list \<Rightarrow> (string \<times> CacheEntry) list \<Rightarrow> bool" where
  "lru_inv R es \<longleftrightarrow>
     distinct (map fst R) \<and> distinct (map fst es) \<and> (\<forall>(k, e) \<in> set R. map_of es k = Some e)"

definition lru_round ::
  "int \<Rightarrow> int \<Rightarrow> string \<Rightarrow> CacheEntry \<Rightarrow> (string \<times> CacheEntry) list \<times> int \<times> int
     \<Rightarrow> (string \<times> CacheEntry) list \<times> int \<times> int" where
  "lru_round me ms k e s =
     (let (es, cnt, sz) = s;
          dropped = (contents e \<noteq> None \<and> sz > ms);
          es1 = (if dropped then AList.map_entry k (\<lambda>e. e\<lparr>contents := None\<rparr>) es else es)
      in (if cnt > me then AList.delete k es1 else es1,
          if cnt > me then cnt - 1 else cnt,
          if dropped then sz - contents_bytes e else sz))"

definition nonneg_sizes :: "(string \<times> CacheEntry) list \<Rightarrow> bool" where
  "nonneg_sizes es \<longleftrightarrow> (\<forall>(k, e) \<in> set es. 0 \<le> contents_bytes e)"

text \<open>A cache with limits below zero, and a cache over both of its limits.\<close>

definition neg_cache :: RemoteCache where
  "neg_cache = sample_cache\<lparr>max_entries := - 1, max_size := - 1, entries := []\<rparr>"

definition lru_cache :: RemoteCache where
  "lru_cache =
     \<lparr>base_path = ''/cache'', machine_id = ''m1'', prefetch = False, max_entries = 2,
      max_size = 3, cacheable_paths = [''/usr''],
      entries =
        [(''m1:/usr/c'',
          \<lparr>path = ''/usr/c'', meta = file_meta, last_access = 3, last_update = 3,
           contents = Some \<lparr>storage = ''/cache/contents/c'', blob_size = 2,
                            checksum = ''cc'', dirty = False\<rparr>\<rparr>),
         (''m1:/usr/a'',
          \<lparr>path = ''/usr/a'', meta = file_meta, last_access = 1, last_update = 1,
           contents = Some \<lparr>storage = ''/cache/contents/a'', blob_size = 2,
                            checksum = ''aa'', dirty = False\<rparr>\<rparr>),
         (''m1:/usr/b'',
          \<lparr>path = ''/usr/b'', meta = file_meta, last_access = 2, last_update = 2,
           contents = Some \<lparr>storage = ''/cache/contents/b'', blob_size = 2,
                            checksum = ''bb'', dirty = False\<rparr>\<rparr>)]\<rparr>"

section \<open>Round trip of exceptions through the codec\<close>

text \<open>
  C8. Deserializing the serialized form of an exception \<open>e\<close> returns an exception with
  the arguments of \<open>e\<close>. Its class is the builtin exception class that the class name of
  \<open>e\<close> is bound to, when there is one, and the generic \<open>Exception\<close> otherwise; so an
  instance of a builtin exception class comes back as it was.
\<close>

theorem exception_roundtrip:
  "\<exists>r. deserialize_exception b (serialize_exception e) = Inr r \<and>
       exc_args r = exc_args e \<and>
       exc_type r =
         (case b (qualname (exc_type e)) of
            Some (ExcType c) \<Rightarrow> c
          | _ \<Rightarrow> Builtin ''Exception'') \<and>
       (b (qualname (exc_type e)) = Some (ExcType (exc_type e)) \<longrightarrow> r = e)"
  by (cases e)
     (auto simp: deserialize_exception_def serialize_exception_def getattr_builtins_def
           split: option.splits builtin_obj.splits)

theorem exception_roundtrip_witness:
  "deserialize_exception some_builtins
     (serialize_exception (FileNotFoundError [PyInt 2, PyStr ''No such file or directory'']))
     = Inr (FileNotFoundError [PyInt 2, PyStr ''No such file or directory'']) \<and>
   deserialize_exception some_builtins
     (serialize_exception (Exn (UserClass ''outrun.rpc'' ''InvalidTokenError'') [PyStr ''token'']))
     = Inr (Exn (Builtin ''Exception'') [PyStr ''token''])"
  using exception_roundtrip [of some_builtins
          "FileNotFoundError [PyInt 2, PyStr ''No such file or directory'']"]
        exception_roundtrip [of some_builtins
          "Exn (UserClass ''outrun.rpc'' ''InvalidTokenError'') [PyStr ''token'']"]
  by (auto simp: some_builtins_def intro!: exn.expand)

section \<open>Changed metadata\<close>

lemma significant_meta_eq_iff:
  "significant_meta m' = significant_meta m \<longleftrightarrow>
     link m' = link m \<and>
     map_option (\<lambda>e. (exc_type e, exc_args e)) (error m') =
       map_option (\<lambda>e. (exc_type e, exc_args e)) (error m) \<and>
     map_option (\<lambda>a. a\<lparr>st_atime_ns := None\<rparr>) (attr m') =
       map_option (\<lambda>a. a\<lparr>st_atime_ns := None\<rparr>) (attr m)"
  by (auto simp: significant_meta_def split: option.splits)

lemma differs_only_in_atime_significant:
  "differs_only_in_atime m' m \<Longrightarrow> significant_meta m' = significant_meta m"
  unfolding differs_only_in_atime_def significant_meta_def
  apply (auto split: option.splits)
  subgoal for a a' by (cases a; cases a'; simp)
  done

lemma get_changed_single:
  "snd (svc_get_changed_metadata fs self [(p, m)]) =
     (let m' = snd (svc_get_metadata fs self p)
      in if significant_meta m' = significant_meta m then [] else [(p, m')])"
  by (simp add: svc_get_changed_metadata_def Let_def split: prod.splits)

text \<open>
  C4. For a path \<open>p\<close> with cached metadata \<open>m\<close>, let \<open>m'\<close> be the metadata the
  service reads now. \<open>get_changed_metadata({p: m})\<close> is empty when \<open>m'\<close> differs from
  \<open>m\<close> only in the access time; it is \<open>{p: m'}\<close> when the size, the mode, the
  modification time, the link target, or the class or arguments of the error differ; and
  the error components of two metadata that both carry an error compare equal exactly
  when class and arguments are the same.
\<close>

theorem get_changed_metadata_significant:
  fixes fs self p m
  defines "m' \<equiv> snd (svc_get_metadata fs self p)"
  defines "changed \<equiv> snd (svc_get_changed_metadata fs self [(p, m)])"
  shows "(differs_only_in_atime m' m \<longrightarrow> changed = []) \<and>
         ((\<exists>a a'. attr m = Some a \<and> attr m' = Some a' \<and>
              (st_size a' \<noteq> st_size a \<or> st_mode a' \<noteq> st_mode a \<or>
               st_mtime_ns a' \<noteq> st_mtime_ns a)) \<or>
          link m' \<noteq> link m \<or>
          map_option exc_type (error m') \<noteq> map_option exc_type (error m) \<or>
          map_option exc_args (error m') \<noteq> map_option exc_args (error m)
            \<longrightarrow> changed = [(p, m')]) \<and>
         (\<forall>e e'. error m = Some e \<and> error m' = Some e' \<longrightarrow>
            (fst (snd (significant_meta m')) = fst (snd (significant_meta m))
               \<longleftrightarrow> exc_type e' = exc_type e \<and> exc_args e' = exc_args e))"
proof -
  have c: "changed = (if significant_meta m' = significant_meta m then [] else [(p, m')])"
    unfolding changed_def m'_def by (simp add: get_changed_single Let_def)
  have 1: "differs_only_in_atime m' m \<longrightarrow> changed = []"
    using c differs_only_in_atime_significant by simp
  have 2: "(\<exists>a a'. attr m = Some a \<and> attr m' = Some a' \<and>
              (st_size a' \<noteq> st_size a \<or> st_mode a' \<noteq> st_mode a \<or>
               st_mtime_ns a' \<noteq> st_mtime_ns a)) \<or>
          link m' \<noteq> link m \<or>
          map_option exc_type (error m') \<noteq> map_option exc_type (error m) \<or>
          map_option exc_args (error m') \<noteq> map_option exc_args (error m)
            \<longrightarrow> changed = [(p, m')]"
  proof
    assume h: "(\<exists>a a'. attr m = Some a \<and> attr m' = Some a' \<and>
              (st_size a' \<noteq> st_size a \<or> st_mode a' \<noteq> st_mode a \<or>
               st_mtime_ns a' \<noteq> st_mtime_ns a)) \<or>
          link m' \<noteq> link m \<or>
          map_option exc_type (error m') \<noteq> map_option exc_type (error m) \<or>
          map_option exc_args (error m') \<noteq> map_option exc_args (error m)"
    have "significant_meta m' \<noteq> significant_meta m"
    proof
      assume "significant_meta m' = significant_meta m"
      then have eqs: "link m' = link m"
         "map_option (\<lambda>e. (exc_type e, exc_args e)) (error m') =
            map_option (\<lambda>e. (exc_type e, exc_args e)) (error m)"
         "map_option (\<lambda>a. a\<lparr>st_atime_ns := None\<rparr>) (attr m') =
            map_option (\<lambda>a. a\<lparr>st_atime_ns := None\<rparr>) (attr m)"
        by (simp_all add: significant_meta_eq_iff)
      from eqs(2) have e: "map_option exc_type (error m') = map_option exc_type (error m)"
           "map_option exc_args (error m') = map_option exc_args (error m)"
        by (cases "error m'"; cases "error m"; simp)+
      have "\<And>a a'. attr m = Some a \<Longrightarrow> attr m' = Some a' \<Longrightarrow>
              st_size a' = st_size a \<and> st_mode a' = st_mode a \<and> st_mtime_ns a' = st_mtime_ns a"
      proof -
        fix a a' assume "attr m = Some a" "attr m' = Some a'"
        with eqs(3) have "a'\<lparr>st_atime_ns := None\<rparr> = a\<lparr>st_atime_ns := None\<rparr>" by simp
        then show "st_size a' = st_size a \<and> st_mode a' = st_mode a \<and> st_mtime_ns a' = st_mtime_ns a"
          by (cases a; cases a'; simp)
      qed
      with h eqs(1) e show False by blast
    qed
    with c show "changed = [(p, m')]" by simp
  qed
  have 3: "\<forall>e e'. error m = Some e \<and> error m' = Some e' \<longrightarrow>
            (fst (snd (significant_meta m')) = fst (snd (significant_meta m))
               \<longleftrightarrow> exc_type e' = exc_type e \<and> exc_args e' = exc_args e)"
    by (auto simp: significant_meta_def)
  from 1 2 3 show ?thesis by blast
qed


theorem get_changed_metadata_significant_witness:
  "snd (svc_get_changed_metadata one_file_fs new_service
          [(''/usr/lib/libc.so'',
            \<lparr>attr = Some (file_attr\<lparr>st_atime_ns := Some 1\<rparr>), link = None, error = None\<rparr>)]) = [] \<and>
   snd (svc_get_changed_metadata one_file_fs new_service
          [(''/usr/lib/libc.so'',
            \<lparr>attr = Some (file_attr\<lparr>st_size := 20\<rparr>), link = None, error = None\<rparr>)])
     = [(''/usr/lib/libc.so'', \<lparr>attr = Some file_attr, link = None, error = None\<rparr>)] \<and>
   snd (svc_get_changed_metadata one_file_fs new_service
          [(''/usr/lib/gone.so'',
            \<lparr>attr = None, link = None,
             error = Some (FileNotFoundError [PyInt 2, PyStr ''No such file or directory''])\<rparr>)]) = []"
  using get_changed_metadata_significant [of one_file_fs new_service "''/usr/lib/libc.so''"
          "\<lparr>attr = Some (file_attr\<lparr>st_atime_ns := Some 1\<rparr>), link = None, error = None\<rparr>"]
        get_changed_metadata_significant [of one_file_fs new_service "''/usr/lib/libc.so''"
          "\<lparr>attr = Some (file_attr\<lparr>st_size := 20\<rparr>), link = None, error = None\<rparr>"]
        get_changed_metadata_significant [of one_file_fs new_service "''/usr/lib/gone.so''"
          "\<lparr>attr = None, link = None,
            error = Some (FileNotFoundError [PyInt 2, PyStr ''No such file or directory''])\<rparr>"]
  by (simp add: differs_only_in_atime_def svc_get_metadata_def one_file_fs_def file_attr_def
        Metadata_default_def S_ISLNK_def S_IFMT_def)

section \<open>Reading cached metadata\<close>

lemma map_of_in_keys: "map_of es k = Some v \<Longrightarrow> k \<in> fst ` set es"
  by (force dest: map_of_SomeD)

lemma lock_entry_present:
  assumes "map_of (entries self) (entry_key self p) = Some entry"
  shows "lock_entry cl now p (self, w) =
           Inr (self\<lparr>entries := AList.map_entry (entry_key self p)
                          (\<lambda>e. e\<lparr>last_access := now\<rparr>) (entries self)\<rparr>, w)"
  using map_of_in_keys [OF assms] by (simp add: lock_entry_def Let_def)

lemma entry_key_entries_update [simp]: "entry_key (self\<lparr>entries := es\<rparr>) p = entry_key self p"
  by (simp add: entry_key_def)

lemma save_contents_self: "fst (fst (save_contents cont (self, w))) = self"
  by (simp add: save_contents_def Let_def)

lemma store_prefetch_machine_id [simp]:
  "machine_id (fst (store_prefetch now p pf st)) = machine_id (fst st)"
proof -
  obtain self w where st: "st = (self, w)" by (cases st)
  define key where "key = entry_key self (pf_path pf)"
  define self1 where "self1 =
                 (if key \<notin> fst ` set (entries self) then
                    self\<lparr>entries := AList.update key
                            \<lparr>path = pf_path pf, meta = pf_metadata pf, last_access = 0,
                             last_update = now, contents = None\<rparr> (entries self)\<rparr>
                  else self)"
  have 1: "machine_id self1 = machine_id self" by (simp add: self1_def)
  have 2: "machine_id self' = machine_id self"
    if s: "save_contents cont (self1, w) = ((self', w'), blob)" for cont self' w' blob
  proof -
    from save_contents_self [of cont self1 w] s have "self' = self1" by simp
    with 1 show ?thesis by simp
  qed
  show ?thesis
    unfolding st store_prefetch_def Let_def prod.case key_def [symmetric] self1_def [symmetric]
    using 1 2
    by (simp split: option.splits prod.splits)
qed

lemma store_prefetch_meta:
  assumes "map_of (entries (fst st)) k = Some e"
  shows "\<exists>e'. map_of (entries (fst (store_prefetch now p pf st))) k = Some e' \<and> meta e' = meta e"
proof -
  obtain self w where st: "st = (self, w)" by (cases st)
  define key where "key = entry_key self (pf_path pf)"
  define self1 where "self1 =
                 (if key \<notin> fst ` set (entries self) then
                    self\<lparr>entries := AList.update key
                            \<lparr>path = pf_path pf, meta = pf_metadata pf, last_access = 0,
                             last_update = now, contents = None\<rparr> (entries self)\<rparr>
                  else self)"
  from assms have k: "map_of (entries self) k = Some e" by (simp add: st)
  then have kin: "k \<in> fst ` set (entries self)" by (rule map_of_in_keys)
  have 1: "map_of (entries self1) k = Some e"
    using k kin by (auto simp: self1_def update_conv')
  have 2: "\<exists>e'. map_of (AList.map_entry key (\<lambda>e. e\<lparr>contents := Some blob\<rparr>) (entries self')) k
                    = Some e' \<and> meta e' = meta e"
    if s: "save_contents cont (self1, w) = ((self', w'), blob)" for cont self' w' blob
  proof -
    from save_contents_self [of cont self1 w] s have "self' = self1" by simp
    with 1 show ?thesis by (auto simp: map_of_map_entry)
  qed
  show ?thesis
    unfolding st store_prefetch_def Let_def prod.case key_def [symmetric] self1_def [symmetric]
    using 1 2 k
    by (simp split: option.splits prod.splits)
qed

lemma try_store_prefetches_machine_id [simp]:
  "machine_id (fst (try_store_prefetches now p pfs st)) = machine_id (fst st)"
  unfolding try_store_prefetches_def
  by (induction pfs arbitrary: st) simp_all

lemma try_store_prefetches_meta:
  assumes "map_of (entries (fst st)) k = Some e"
  shows "\<exists>e'. map_of (entries (fst (try_store_prefetches now p pfs st))) k = Some e' \<and>
              meta e' = meta e"
  using assms unfolding try_store_prefetches_def
proof (induction pfs arbitrary: st e)
  case Nil
  then show ?case by simp
next
  case (Cons pf pfs)
  from store_prefetch_meta [OF Cons.prems, of now p pf]
  obtain e1 where e1: "map_of (entries (fst (store_prefetch now p pf st))) k = Some e1"
    and m1: "meta e1 = meta e" by blast
  from Cons.IH [OF e1] m1 show ?case by simp
qed

lemma entry_key_machine_id: "machine_id a = machine_id b \<Longrightarrow> entry_key a p = entry_key b p"
  by (simp add: entry_key_def)

text \<open>The entry that the body of \<open>get_metadata\<close> works on, for every way in.\<close>

lemma lock_entry_hit:
  assumes "map_of (entries self) (entry_key self p) = Some entry"
  shows "\<exists>st1. lock_entry cl now p (self, w) = Inr st1 \<and>
           map_of (entries (fst st1)) (entry_key (fst st1) p) = Some (entry\<lparr>last_access := now\<rparr>)"
  using assms by (simp add: lock_entry_present [OF assms] map_of_map_entry)

lemma lock_entry_miss_plain:
  assumes "map_of (entries self) (entry_key self p) = None" and "\<not> prefetch self"
      and "rpc_get_metadata cl p = Inr m"
  shows "\<exists>st1 entry. lock_entry cl now p (self, w) = Inr st1 \<and>
           map_of (entries (fst st1)) (entry_key (fst st1) p) = Some entry \<and> meta entry = m"
  using assms by (simp add: lock_entry_def Let_def map_of_eq_None_iff update_conv')

lemma lock_entry_miss_prefetch:
  assumes "map_of (entries self) (entry_key self p) = None" and "prefetch self"
      and "rpc_get_metadata_prefetch cl p = Inr (m, pfs)"
  shows "\<exists>st1 entry. lock_entry cl now p (self, w) = Inr st1 \<and>
           map_of (entries (fst st1)) (entry_key (fst st1) p) = Some entry \<and> meta entry = m"
proof -
  let ?e = "\<lparr>path = p, meta = m, last_access = now, last_update = now, contents = None\<rparr>"
  let ?st0 = "(self\<lparr>entries := AList.update (entry_key self p) ?e (entries self)\<rparr>, w)"
  have l: "lock_entry cl now p (self, w) = Inr (try_store_prefetches now p pfs ?st0)"
    using assms by (simp add: lock_entry_def Let_def map_of_eq_None_iff)
  have "map_of (entries (fst ?st0)) (entry_key self p) = Some ?e"
    by (simp add: update_conv')
  from try_store_prefetches_meta [OF this, of now p pfs]
  obtain e' where e': "map_of (entries (fst (try_store_prefetches now p pfs ?st0)))
                          (entry_key self p) = Some e'" and m: "meta e' = m" by auto
  have k: "entry_key (fst (try_store_prefetches now p pfs ?st0)) p = entry_key self p"
    by (rule entry_key_machine_id) simp
  from l e' m k show ?thesis by simp
qed

lemma lock_entry_miss_fails:
  assumes "map_of (entries self) (entry_key self p) = None"
  shows "prefetch self \<Longrightarrow> rpc_get_metadata_prefetch cl p = Inl e \<Longrightarrow>
           lock_entry cl now p (self, w) = Inl e"
    and "\<not> prefetch self \<Longrightarrow> rpc_get_metadata cl p = Inl e \<Longrightarrow>
           lock_entry cl now p (self, w) = Inl e"
  using assms by (simp_all add: lock_entry_def Let_def map_of_eq_None_iff)

lemma get_metadata_after_lock:
  assumes "lock_entry cl now p st = Inr st1"
      and "map_of (entries (fst st1)) (entry_key (fst st1) p) = Some entry"
  shows "get_metadata cl now p st = (st1, metadata_outcome (meta entry))"
proof -
  obtain self1 w1 where st1: "st1 = (self1, w1)" by (cases st1)
  show ?thesis
    using assms unfolding st1
    by (simp add: get_metadata_def metadata_outcome_def Let_def split: option.splits)
qed

lemma get_metadata_characterised:
  "snd (get_metadata cl now p (self, w)) =
     (case map_of (entries self) (entry_key self p) of
        Some entry \<Rightarrow> metadata_outcome (meta entry)
      | None \<Rightarrow>
          (if prefetch self then
             (case rpc_get_metadata_prefetch cl p of
                Inl e \<Rightarrow> Inl e | Inr (m, pfs) \<Rightarrow> metadata_outcome m)
           else
             (case rpc_get_metadata cl p of
                Inl e \<Rightarrow> Inl e | Inr m \<Rightarrow> metadata_outcome m)))"
proof (cases "map_of (entries self) (entry_key self p)")
  case (Some entry)
  from lock_entry_hit [OF Some, of cl now w] obtain st1 where
    "lock_entry cl now p (self, w) = Inr st1"
    "map_of (entries (fst st1)) (entry_key (fst st1) p) = Some (entry\<lparr>last_access := now\<rparr>)"
    by blast
  from get_metadata_after_lock [OF this] Some show ?thesis by simp
next
  case None
  show ?thesis
  proof (cases "prefetch self")
    case True
    show ?thesis
    proof (cases "rpc_get_metadata_prefetch cl p")
      case (Inl e)
      from lock_entry_miss_fails(1) [OF None True Inl, of now w] None True Inl
      show ?thesis by (simp add: get_metadata_def)
    next
      case (Inr r)
      obtain m pfs where r: "r = (m, pfs)" by (cases r)
      from lock_entry_miss_prefetch [OF None True Inr [unfolded r], of now w]
      obtain st1 entry where "lock_entry cl now p (self, w) = Inr st1"
        "map_of (entries (fst st1)) (entry_key (fst st1) p) = Some entry" and m: "meta entry = m"
        by blast
      from get_metadata_after_lock [OF this(1,2)] m None True Inr r show ?thesis by simp
    qed
  next
    case False
    show ?thesis
    proof (cases "rpc_get_metadata cl p")
      case (Inl e)
      from lock_entry_miss_fails(2) [OF None False Inl, of now w] None False Inl
      show ?thesis by (simp add: get_metadata_def)
    next
      case (Inr m)
      from lock_entry_miss_plain [OF None False Inr, of now w]
      obtain st1 entry where "lock_entry cl now p (self, w) = Inr st1"
        "map_of (entries (fst st1)) (entry_key (fst st1) p) = Some entry" and m: "meta entry = m"
        by blast
      from get_metadata_after_lock [OF this(1,2)] m None False Inr show ?thesis by simp
    qed
  qed
qed

lemma lock_entry_yields:
  assumes "lock_entry cl now p st = Inr st1"
  shows "\<exists>entry. map_of (entries (fst st1)) (entry_key (fst st1) p) = Some entry"
proof -
  obtain self w where st: "st = (self, w)" by (cases st)
  show ?thesis
  proof (cases "map_of (entries self) (entry_key self p)")
    case (Some entry)
    from lock_entry_hit [OF Some, of cl now w] assms show ?thesis by (auto simp: st)
  next
    case None
    show ?thesis
    proof (cases "prefetch self")
      case True
      with assms None obtain m pfs where "rpc_get_metadata_prefetch cl p = Inr (m, pfs)"
        unfolding st by (auto simp: lock_entry_def Let_def map_of_eq_None_iff split: sum.splits)
      from lock_entry_miss_prefetch [OF None True this, of now w] assms
      show ?thesis by (auto simp: st)
    next
      case False
      with assms None obtain m where "rpc_get_metadata cl p = Inr m"
        unfolding st by (auto simp: lock_entry_def Let_def map_of_eq_None_iff split: sum.splits)
      from lock_entry_miss_plain [OF None False this, of now w] assms
      show ?thesis by (auto simp: st)
    qed
  qed
qed

lemma get_metadata_normal_return:
  assumes "get_metadata cl now p st = (st', Inr r)"
  shows "\<exists>entry a. map_of (entries (fst st')) (entry_key (fst st') p) = Some entry \<and>
           attr (meta entry) = Some a \<and> error (meta entry) = None \<and>
           r = (meta entry)\<lparr>attr := Some (as_readonly a)\<rparr>"
proof (cases "lock_entry cl now p st")
  case (Inl e)
  with assms show ?thesis by (simp add: get_metadata_def)
next
  case (Inr st1)
  from lock_entry_yields [OF Inr] obtain entry where
    e: "map_of (entries (fst st1)) (entry_key (fst st1) p) = Some entry" by blast
  from get_metadata_after_lock [OF Inr e] assms
  have "st' = st1" and "metadata_outcome (meta entry) = Inr r" by simp_all
  with e show ?thesis
    by (auto simp: metadata_outcome_def split: option.splits)
qed

text \<open>
  C10. For every call of \<open>get_metadata\<close>, on an entry already in the cache or on one
  that the call fetches and installs (with or without prefetching): it raises the error
  of the entry's metadata when there is one, raises
  \<open>ValueError("entry is missing attributes")\<close> when the metadata has neither error nor
  attributes, and returns only when the attributes are present. Whenever it returns,
  the entry of the path in the cache has attributes and no error. (On first access a
  failure of the fetch itself is raised.)
\<close>

theorem get_metadata_outcome:
  "snd (get_metadata cl now p (self, w)) =
     (case map_of (entries self) (entry_key self p) of
        Some entry \<Rightarrow> metadata_outcome (meta entry)
      | None \<Rightarrow>
          (if prefetch self then
             (case rpc_get_metadata_prefetch cl p of
                Inl e \<Rightarrow> Inl e | Inr (m, pfs) \<Rightarrow> metadata_outcome m)
           else
             (case rpc_get_metadata cl p of
                Inl e \<Rightarrow> Inl e | Inr m \<Rightarrow> metadata_outcome m))) \<and>
   (\<forall>st' r. get_metadata cl now p (self, w) = (st', Inr r) \<longrightarrow>
      (\<exists>entry a. map_of (entries (fst st')) (entry_key (fst st') p) = Some entry \<and>
         attr (meta entry) = Some a \<and> error (meta entry) = None))"
proof -
  have "\<exists>entry a. map_of (entries (fst st')) (entry_key (fst st') p) = Some entry \<and>
         attr (meta entry) = Some a \<and> error (meta entry) = None"
    if "get_metadata cl now p (self, w) = (st', Inr r)" for st' r
    using get_metadata_normal_return [OF that] by blast
  with get_metadata_characterised [of cl now p self w] show ?thesis by blast
qed

theorem get_metadata_outcome_witness:
  "snd (get_metadata sample_client 20 ''/usr/gone'' (sample_cache, sample_world))
     = Inl (FileNotFoundError [PyInt 2, PyStr ''No such file or directory'']) \<and>
   snd (get_metadata sample_client 20 ''/usr/odd'' (sample_cache, sample_world))
     = Inl (ValueError [PyStr ''entry is missing attributes'']) \<and>
   snd (get_metadata sample_client 20 ''/usr/lib/libc.so'' (sample_cache, sample_world))
     = Inr (file_meta\<lparr>attr := Some (as_readonly file_attr)\<rparr>) \<and>
   snd (get_metadata sample_client 20 ''/usr/bin/new'' (sample_cache, sample_world))
     = Inr (file_meta\<lparr>attr := Some (as_readonly file_attr)\<rparr>) \<and>
   snd (get_metadata bare_client 20 ''/usr/bin/new'' (sample_cache, sample_world))
     = Inl (ValueError [PyStr ''entry is missing attributes''])"
  by (simp add: get_metadata_outcome [THEN conjunct1] metadata_outcome_def sample_cache_def
        entry_key_def gone_meta_def file_meta_def Metadata_default_def sample_client_def
        bare_client_def)






section \<open>Opening cached contents\<close>

lemma cache_contents_path_entries [simp]:
  "cache_contents_path (self\<lparr>entries := es\<rparr>) = cache_contents_path self"
  by (simp add: cache_contents_path_def)

lemma blob_files_entries [simp]:
  "blob_files (self\<lparr>entries := es\<rparr>) w = blob_files self w"
  by (simp add: blob_files_def)

lemma save_contents_result:
  assumes "save_contents cont (self, w) = ((self', w'), blob)"
  shows "self' = self" and "storage blob \<in> blob_files self w'"
    and "blob_files self w \<subseteq> blob_files self w'"
  using assms by (auto simp: save_contents_def Let_def blob_files_def)

lemma extends_refl [simp]: "extends st st"
  by (simp add: extends_def)

lemma extends_trans: "extends a b \<Longrightarrow> extends b c \<Longrightarrow> extends a c"
  unfolding extends_def
  by (elim conjE, intro conjI) (simp, erule (1) subset_trans, erule (1) subset_trans)

lemma keys_map_entry [simp]: "fst ` set (AList.map_entry k f es) = fst ` set es"
  by (induction es) simp_all

lemma keys_update: "fst ` set (AList.update k v es) = insert k (fst ` set es)"
  by (simp add: AList.dom_update)

lemma save_contents_extends:
  assumes "save_contents cont st = (st', blob)"
  shows "extends st st'" and "storage blob \<in> blob_files (fst st') (snd st')"
proof -
  obtain self w where st: "st = (self, w)" by (cases st)
  obtain self' w' where st': "st' = (self', w')" by (cases st')
  note r = save_contents_result [OF assms [unfolded st st']]
  show "extends st st'" using r by (simp add: st st' extends_def)
  show "storage blob \<in> blob_files (fst st') (snd st')" using r by (simp add: st st')
qed

lemma extends_set_entries:
  "fst ` set (entries self) \<subseteq> fst ` set es \<Longrightarrow> extends (self, w) (self\<lparr>entries := es\<rparr>, w)"
  by (simp add: extends_def)

lemma extends_map_entry:
  "extends (self, w) (self\<lparr>entries := AList.map_entry k f (entries self)\<rparr>, w)"
  by (simp add: extends_def)

lemma store_prefetch_extends: "extends st (store_prefetch now p pf st)"
proof -
  obtain self w where st: "st = (self, w)" by (cases st)
  define key where "key = entry_key self (pf_path pf)"
  define self1 where "self1 =
                 (if key \<notin> fst ` set (entries self) then
                    self\<lparr>entries := AList.update key
                            \<lparr>path = pf_path pf, meta = pf_metadata pf, last_access = 0,
                             last_update = now, contents = None\<rparr> (entries self)\<rparr>
                  else self)"
  have 1: "extends (self, w) (self1, w)"
    by (simp add: self1_def extends_def keys_update subset_insertI)
  have 2: "extends (self, w)
             (self'\<lparr>entries := AList.map_entry key
                         (\<lambda>e. e\<lparr>contents := Some blob\<rparr>) (entries self')\<rparr>, w')"
    if s: "save_contents cont (self1, w) = ((self', w'), blob)" for cont self' w' blob
  proof -
    have "extends (self1, w) (self', w')" by (rule save_contents_extends(1) [OF s])
    from extends_trans [OF 1 this] have "extends (self, w) (self', w')" .
    from extends_trans [OF this extends_map_entry [of self' w' key]]
    show ?thesis .
  qed
  show ?thesis
    unfolding st store_prefetch_def Let_def prod.case key_def [symmetric] self1_def [symmetric]
    using 1 2
    by (simp split: option.splits prod.splits)
qed

lemma try_store_prefetches_extends: "extends st (try_store_prefetches now p pfs st)"
  unfolding try_store_prefetches_def
proof (induction pfs arbitrary: st)
  case Nil
  then show ?case by simp
next
  case (Cons pf pfs)
  have "extends st (fold (store_prefetch now p) pfs (store_prefetch now p pf st))"
    by (rule extends_trans [OF store_prefetch_extends Cons.IH])
  then show ?case by simp
qed

lemma update_contents_forced:
  assumes "update_contents cl now key True st = (st2, Inr blob')"
  shows "extends st st2 \<and> storage blob' \<in> blob_files (fst st2) (snd st2)"
proof -
  obtain self w where st: "st = (self, w)" by (cases st)
  from assms obtain entry where e: "map_of (entries self) key = Some entry"
    unfolding st update_contents_def by (auto simp: Let_def split: option.splits)
  show ?thesis
  proof (cases "prefetch self")
    case True
    with assms e obtain cont pfs where
      s: "save_contents cont (try_store_prefetches now (path entry) pfs st) = (st2, blob')"
      unfolding st update_contents_def
      by (auto simp: Let_def split: sum.splits prod.splits)
    have "extends st st2"
      by (rule extends_trans [OF try_store_prefetches_extends save_contents_extends(1) [OF s]])
    with save_contents_extends(2) [OF s] show ?thesis by simp
  next
    case False
    with assms e obtain cont where s: "save_contents cont st = (st2, blob')"
      unfolding st update_contents_def
      by (auto simp: Let_def split: sum.splits prod.splits)
    from save_contents_extends [OF s] show ?thesis by simp
  qed
qed

lemma open_loop_second:
  assumes u: "update_contents cl now key True (self, w) = (st2, Inr blob')"
      and k: "map_of (entries self) key = Some entry"
  shows "open_loop cl now (\<lambda>n dir. dir) key flags (Suc n)
                  (set_contents key (Some blob') (fst st2), snd st2) =
                Some ((set_contents key (Some blob') (fst st2), snd st2),
                      Inr (Fd (storage blob') flags))"
proof -
  from update_contents_forced [OF u]
  have ex: "extends (self, w) st2" and b: "storage blob' \<in> blob_files (fst st2) (snd st2)"
    by simp_all
  from ex map_of_in_keys [OF k] have "key \<in> fst ` set (entries (fst st2))"
    by (auto simp: extends_def)
  then obtain e2 where e2: "map_of (entries (fst st2)) key = Some e2"
    by (cases "map_of (entries (fst st2)) key") (auto simp: map_of_eq_None_iff)
  have w: "(snd st2)\<lparr>contents_dir := contents_dir (snd st2)\<rparr> = snd st2" by simp
  show ?thesis
    apply (rule trans [OF open_loop.simps])
    apply (simp only: Let_def fst_conv snd_conv w)
    apply (simp add: set_contents_def map_of_map_entry e2 b)
    done
qed

lemma open_loop_undisturbed:
  "open_loop cl now (\<lambda>n dir. dir) key flags n (self, w) =
     (case map_of (entries self) key of
        None \<Rightarrow> Some ((self, w), Inl (KeyError [PyStr key]))
      | Some entry \<Rightarrow>
          (case contents entry of
             None \<Rightarrow> Some ((self, w), Inl (Exn (Builtin ''AttributeError'') []))
           | Some blob \<Rightarrow>
               (if storage blob \<in> blob_files self w
                then Some ((self, w), Inr (Fd (storage blob) flags))
                else
                  (case update_contents cl now key True (self, w) of
                     (st2, Inl e) \<Rightarrow> Some (st2, Inl e)
                   | (st2, Inr blob') \<Rightarrow>
                       Some ((set_contents key (Some blob') (fst st2), snd st2),
                             Inr (Fd (storage blob') flags))))))"
proof -
  have w: "w\<lparr>contents_dir := contents_dir w\<rparr> = w" by simp
  have second: "open_loop cl now (\<lambda>n dir. dir) key flags (Suc n)
                  (set_contents key (Some blob') a, b) =
                Some ((set_contents key (Some blob') a, b), Inr (Fd (storage blob') flags))"
    if "update_contents cl now key True (self, w) = ((a, b), Inr blob')"
      and "map_of (entries self) key = Some entry" for a b blob' entry
    using open_loop_second [OF that, of flags n] by simp
  show ?thesis
    apply (rule trans [OF open_loop.simps])
    apply (simp only: Let_def fst_conv snd_conv w)
    apply (simp add: second split: option.splits sum.splits prod.splits)
    done
qed

lemma update_contents_forced_plain:
  assumes "map_of (entries self) key = Some entry" and "\<not> prefetch self"
      and "rpc_readfile cl (path entry) = Inr c"
  shows "update_contents cl now key True (self, w) =
           ((self, w\<lparr>contents_dir :=
                       (if uuid4_hex w (uuids_drawn w) \<in> set (contents_dir w)
                        then contents_dir w
                        else contents_dir w @ [uuid4_hex w (uuids_drawn w)]),
                    uuids_drawn := Suc (uuids_drawn w)\<rparr>),
            Inr \<lparr>storage = path_join (cache_contents_path self) (uuid4_hex w (uuids_drawn w)),
                 blob_size = fc_size c, checksum = fc_checksum c, dirty = False\<rparr>)"
  using assms by (simp add: update_contents_def save_contents_def Let_def)

lemma open_loop_starved:
  assumes "open_loop cl now others key flags n st = Some y"
  shows "\<not> starved cl others key st"
proof (rule open_loop.raw_induct
         [where P = "\<lambda>cl now others key flags n st y. \<not> starved cl others key st", OF _ assms])
  fix loop :: "Client \<Rightarrow> real \<Rightarrow> (nat \<Rightarrow> string list \<Rightarrow> string list) \<Rightarrow> string \<Rightarrow> int \<Rightarrow> nat
     \<Rightarrow> cache_state \<Rightarrow> (cache_state \<times> (exn + fd)) option"
    and cl now others key flags n st y
  assume IH: "\<And>cl now others key flags n st y.
                loop cl now others key flags n st = Some y \<Longrightarrow> \<not> starved cl others key st"
    and body: "(let self = fst st;
          w = (snd st)\<lparr>contents_dir := others n (contents_dir (snd st))\<rparr>
      in case map_of (entries self) key of
           None \<Rightarrow> Some ((self, w), Inl (KeyError [PyStr key]))
         | Some entry \<Rightarrow>
             (case contents entry of
                None \<Rightarrow> Some ((self, w), Inl (Exn (Builtin ''AttributeError'') []))
              | Some blob \<Rightarrow>
                  (if storage blob \<in> blob_files self w
                   then Some ((self, w), Inr (Fd (storage blob) flags))
                   else
                     (case update_contents cl now key True (self, w) of
                        (st2, Inl e) \<Rightarrow> Some (st2, Inl e)
                      | (st2, Inr blob') \<Rightarrow>
                          loop cl now others key flags (Suc n)
                            (set_contents key (Some blob') (fst st2), snd st2))))) = Some y"
  show "\<not> starved cl others key st"
  proof
    assume inv: "starved cl others key st"
    then obtain entry b where e: "map_of (entries (fst st)) key = Some entry"
        and b: "contents entry = Some b" unfolding starved_def by blast
    from inv obtain c where c: "rpc_readfile cl (path entry) = Inr c"
      unfolding starved_def by blast
    from inv have o: "others = (\<lambda>n dir. [])" and np: "\<not> prefetch (fst st)"
      and rf: "\<forall>p. \<exists>c. rpc_readfile cl p = Inr c"
      unfolding starved_def by simp_all
    let ?w = "(snd st)\<lparr>contents_dir := []\<rparr>"
    let ?blob = "\<lparr>storage = path_join (cache_contents_path (fst st)) (uuid4_hex ?w (uuids_drawn ?w)),
                 blob_size = fc_size c, checksum = fc_checksum c, dirty = False\<rparr>"
    let ?w' = "?w\<lparr>contents_dir := [uuid4_hex ?w (uuids_drawn ?w)],
                    uuids_drawn := Suc (uuids_drawn ?w)\<rparr>"
    let ?st' = "(set_contents key (Some ?blob) (fst st), ?w')"
    have u: "update_contents cl now key True (fst st, ?w) = ((fst st, ?w'), Inr ?blob)"
      using update_contents_forced_plain [OF e np c, of now ?w] by simp
    have "loop cl now others key flags (Suc n) ?st' = Some y"
      using body e b u by (simp add: o Let_def blob_files_def)
    from IH [OF this] have "\<not> starved cl others key ?st'" .
    moreover have "starved cl others key ?st'"
      unfolding starved_def using o np rf e
      by (simp add: set_contents_def map_of_map_entry)
    ultimately show False by simp
  qed
qed

text \<open>
  C7, as stated, fails: when another process removes the blob before every
  \<open>os.open\<close>, \<open>open_contents\<close> refreshes and retries for ever and never returns.
\<close>

theorem open_contents_starved:
  "open_contents sample_client 20 (\<lambda>n dir. []) ''/usr/lib/libc.so'' 0
     (sample_cache, sample_world) = None"
proof -
  let ?blob = "\<lparr>storage = ''/cache/contents/a'', blob_size = 3,
                                checksum = ''2c26b46b'', dirty = False\<rparr>"
  let ?st = "(sample_cache\<lparr>entries :=
            [(''m1:/usr/lib/libc.so'',
              \<lparr>path = ''/usr/lib/libc.so'', meta = file_meta, last_access = 20, last_update = 5,
               contents = Some ?blob\<rparr>),
             (''m1:/usr/gone'',
              \<lparr>path = ''/usr/gone'', meta = gone_meta, last_access = 11, last_update = 6,
               contents = None\<rparr>),
             (''m1:/usr/odd'',
              \<lparr>path = ''/usr/odd'', meta = Metadata_default, last_access = 12, last_update = 7,
               contents = None\<rparr>)]\<rparr>,
          sample_world\<lparr>contents_dir := [''a''], uuids_drawn := 1\<rparr>)"
  have oc: "open_contents sample_client 20 (\<lambda>n dir. []) ''/usr/lib/libc.so'' 0
              (sample_cache, sample_world) =
            open_loop sample_client 20 (\<lambda>n dir. []) ''m1:/usr/lib/libc.so'' 0 0 ?st"
    by (simp add: open_contents_def lock_entry_def sample_cache_def entry_key_def Let_def
      update_contents_def sample_client_def save_contents_def sample_world_def set_contents_def
      cache_contents_path_def path_join_def isabs_def foo_contents_def)
  have st: "starved sample_client (\<lambda>n dir. []) ''m1:/usr/lib/libc.so'' ?st"
    by (simp add: starved_def sample_client_def sample_cache_def)
  show ?thesis
  proof (cases "open_loop sample_client 20 (\<lambda>n dir. []) ''m1:/usr/lib/libc.so'' 0 0 ?st")
    case None
    with oc show ?thesis by simp
  next
    case (Some y)
    from open_loop_starved [OF Some] st show ?thesis by simp
  qed
qed

lemma open_contents_returns:
  "\<exists>r. open_contents cl now (\<lambda>n dir. dir) p flags st = Some r"
proof (cases "lock_entry cl now p st")
  case (Inl e)
  then show ?thesis by (simp add: open_contents_def)
next
  case (Inr st1)
  obtain self w where st1: "st1 = (self, w)" by (cases st1)
  have loop: "\<exists>r. open_loop cl now (\<lambda>n dir. dir) key flags n (self', w') = Some r"
    for key n self' w'
    by (simp add: open_loop_undisturbed split: option.splits sum.splits prod.splits)
  show ?thesis
    using Inr loop
    by (simp add: open_contents_def st1 Let_def split: option.splits sum.splits prod.splits)
qed

text \<open>
  C7, amended. The loop of \<open>open_contents\<close> has no bound of its own. When no other
  process touches the contents directory, it makes at most one forced refresh: a blob
  that is there is opened; for a missing blob the contents are refreshed by force, an
  exception of the refresh is raised to the caller, and the new blob is opened at the
  next round. So \<open>open_contents\<close> returns.
\<close>

theorem open_contents_undisturbed:
  "open_loop cl now (\<lambda>n dir. dir) key flags n (self, w) =
     (case map_of (entries self) key of
        None \<Rightarrow> Some ((self, w), Inl (KeyError [PyStr key]))
      | Some entry \<Rightarrow>
          (case contents entry of
             None \<Rightarrow> Some ((self, w), Inl (Exn (Builtin ''AttributeError'') []))
           | Some blob \<Rightarrow>
               (if storage blob \<in> blob_files self w
                then Some ((self, w), Inr (Fd (storage blob) flags))
                else
                  (case update_contents cl now key True (self, w) of
                     (st2, Inl e) \<Rightarrow> Some (st2, Inl e)
                   | (st2, Inr blob') \<Rightarrow>
                       Some ((set_contents key (Some blob') (fst st2), snd st2),
                             Inr (Fd (storage blob') flags)))))) \<and>
   (\<exists>r. open_contents cl now (\<lambda>n dir. dir) p flags st = Some r)"
  using open_loop_undisturbed open_contents_returns by simp

theorem open_contents_undisturbed_witness:
  "open_contents sample_client 20 (\<lambda>n dir. dir) ''/usr/lib/libc.so'' 0
     (stale_cache, sample_world) =
   Some ((stale_cache\<lparr>entries :=
            [(''m1:/usr/lib/libc.so'',
              \<lparr>path = ''/usr/lib/libc.so'', meta = file_meta, last_access = 20, last_update = 5,
               contents = Some \<lparr>storage = ''/cache/contents/a'', blob_size = 3,
                                checksum = ''2c26b46b'', dirty = False\<rparr>\<rparr>)]\<rparr>,
          sample_world\<lparr>contents_dir := [''a''], uuids_drawn := 1\<rparr>),
         Inr (Fd ''/cache/contents/a'' 0))"
  by (simp add: open_contents_def lock_entry_def stale_cache_def entry_key_def Let_def
        open_contents_undisturbed [THEN conjunct1]
        update_contents_def sample_client_def save_contents_def sample_world_def
        set_contents_def blob_files_def cache_contents_path_def path_join_def isabs_def
        foo_contents_def)

text \<open>
  C2. The contents of an entry change without its \<open>last_update\<close>: opening the
  contents of a cached file at time 20 stores a blob in the entry and leaves
  \<open>last_update\<close> at 5, and so does the storing of a prefetch with contents. (The
  metadata replacement of \<open>sync\<close> and the installation of a new entry do set
  \<open>last_update\<close>.)
\<close>

theorem contents_change_keeps_last_update:
  "open_contents sample_client 20 (\<lambda>n dir. dir) ''/usr/lib/libc.so'' 0
     (sample_cache, sample_world) =
   Some ((sample_cache\<lparr>entries :=
            [(''m1:/usr/lib/libc.so'',
              \<lparr>path = ''/usr/lib/libc.so'', meta = file_meta, last_access = 20, last_update = 5,
               contents = Some \<lparr>storage = ''/cache/contents/a'', blob_size = 3,
                                checksum = ''2c26b46b'', dirty = False\<rparr>\<rparr>),
             (''m1:/usr/gone'',
              \<lparr>path = ''/usr/gone'', meta = gone_meta, last_access = 11, last_update = 6,
               contents = None\<rparr>),
             (''m1:/usr/odd'',
              \<lparr>path = ''/usr/odd'', meta = Metadata_default, last_access = 12, last_update = 7,
               contents = None\<rparr>)]\<rparr>,
          sample_world\<lparr>contents_dir := [''a''], uuids_drawn := 1\<rparr>),
         Inr (Fd ''/cache/contents/a'' 0)) \<and>
   try_store_prefetches 20 ''/usr/bin/python''
     [\<lparr>pf_path = ''/usr/lib/libc.so'', pf_metadata = file_meta, pf_contents = Some foo_contents\<rparr>]
     (sample_cache, sample_world) =
   (sample_cache\<lparr>entries :=
            [(''m1:/usr/lib/libc.so'',
              \<lparr>path = ''/usr/lib/libc.so'', meta = file_meta, last_access = 10, last_update = 5,
               contents = Some \<lparr>storage = ''/cache/contents/a'', blob_size = 3,
                                checksum = ''2c26b46b'', dirty = False\<rparr>\<rparr>),
             (''m1:/usr/gone'',
              \<lparr>path = ''/usr/gone'', meta = gone_meta, last_access = 11, last_update = 6,
               contents = None\<rparr>),
             (''m1:/usr/odd'',
              \<lparr>path = ''/usr/odd'', meta = Metadata_default, last_access = 12, last_update = 7,
               contents = None\<rparr>)]\<rparr>,
          sample_world\<lparr>contents_dir := [''a''], uuids_drawn := 1\<rparr>)"
proof -
  have 1: "open_contents sample_client 20 (\<lambda>n dir. dir) ''/usr/lib/libc.so'' 0
     (sample_cache, sample_world) =
   Some ((sample_cache\<lparr>entries :=
            [(''m1:/usr/lib/libc.so'',
              \<lparr>path = ''/usr/lib/libc.so'', meta = file_meta, last_access = 20, last_update = 5,
               contents = Some \<lparr>storage = ''/cache/contents/a'', blob_size = 3,
                                checksum = ''2c26b46b'', dirty = False\<rparr>\<rparr>),
             (''m1:/usr/gone'',
              \<lparr>path = ''/usr/gone'', meta = gone_meta, last_access = 11, last_update = 6,
               contents = None\<rparr>),
             (''m1:/usr/odd'',
              \<lparr>path = ''/usr/odd'', meta = Metadata_default, last_access = 12, last_update = 7,
               contents = None\<rparr>)]\<rparr>,
          sample_world\<lparr>contents_dir := [''a''], uuids_drawn := 1\<rparr>),
         Inr (Fd ''/cache/contents/a'' 0))"
    by (simp add: open_contents_def lock_entry_def sample_cache_def entry_key_def Let_def
        open_loop_undisturbed update_contents_def sample_client_def save_contents_def
        sample_world_def set_contents_def blob_files_def cache_contents_path_def path_join_def
        isabs_def foo_contents_def)
  have 2: "try_store_prefetches 20 ''/usr/bin/python''
     [\<lparr>pf_path = ''/usr/lib/libc.so'', pf_metadata = file_meta, pf_contents = Some foo_contents\<rparr>]
     (sample_cache, sample_world) =
   (sample_cache\<lparr>entries :=
            [(''m1:/usr/lib/libc.so'',
              \<lparr>path = ''/usr/lib/libc.so'', meta = file_meta, last_access = 10, last_update = 5,
               contents = Some \<lparr>storage = ''/cache/contents/a'', blob_size = 3,
                                checksum = ''2c26b46b'', dirty = False\<rparr>\<rparr>),
             (''m1:/usr/gone'',
              \<lparr>path = ''/usr/gone'', meta = gone_meta, last_access = 11, last_update = 6,
               contents = None\<rparr>),
             (''m1:/usr/odd'',
              \<lparr>path = ''/usr/odd'', meta = Metadata_default, last_access = 12, last_update = 7,
               contents = None\<rparr>)]\<rparr>,
          sample_world\<lparr>contents_dir := [''a''], uuids_drawn := 1\<rparr>)"
    by (simp add: try_store_prefetches_def store_prefetch_def sample_cache_def entry_key_def
        Let_def save_contents_def sample_world_def cache_contents_path_def path_join_def
        isabs_def foo_contents_def)
  from 1 2 show ?thesis by (rule conjI)
qed

lemma sync_entry_last_update: "last_update (sync_entry now new_metadata entry) = now"
  by (simp add: sync_entry_def Let_def split: option.splits)


section \<open>Saving the cache: garbage collection of blobs\<close>

lemma gc_fold:
  "fold (\<lambda>(k, entry) orph. case contents entry of Some b \<Rightarrow> orph - {storage b} | None \<Rightarrow> orph)
        es S = S - referenced_blobs es"
proof (induction es arbitrary: S)
  case Nil
  then show ?case by (simp add: referenced_blobs_def)
next
  case (Cons x es)
  obtain k e where x: "x = (k, e)" by (cases x)
  have r: "referenced_blobs ((k, e) # es) =
             (case contents e of Some b \<Rightarrow> {storage b} | None \<Rightarrow> {}) \<union> referenced_blobs es"
    by (auto simp: referenced_blobs_def split: option.splits)
  show ?case
    unfolding x by (simp add: Cons.IH r split: option.splits) blast
qed

lemma blob_files_gc:
  "blob_files self (garbage_collect_blobs self w) =
     blob_files self w \<inter> referenced_blobs (entries self)"
  by (auto simp: blob_files_def garbage_collect_blobs_def Let_def gc_fold)

lemma base_path_lru_cleanup [simp]: "base_path (lru_cleanup self) = base_path self"
  by (simp add: lru_cleanup_def Let_def)

lemma base_path_merge [simp]: "base_path (merge_disk_cache self w) = base_path self"
  by (simp add: merge_disk_cache_def Let_def)

lemma blob_files_base: "base_path a = base_path b \<Longrightarrow> blob_files a w = blob_files b w"
  by (simp add: blob_files_def cache_contents_path_def)

lemma blob_files_index [simp]: "blob_files self (w\<lparr>index_json := x\<rparr>) = blob_files self w"
  by (simp add: blob_files_def)

lemma save_blob_files:
  "blob_files (fst (save merge (self, w))) (snd (save merge (self, w))) =
     blob_files self w \<inter> referenced_blobs (entries (fst (save merge (self, w))))"
proof -
  let ?self2 = "lru_cleanup (if merge then merge_disk_cache self w else self)"
  have b: "base_path ?self2 = base_path self" by simp
  have "blob_files ?self2 (garbage_collect_blobs ?self2 w) =
          blob_files ?self2 w \<inter> referenced_blobs (entries ?self2)"
    by (rule blob_files_gc)
  also have "blob_files ?self2 w = blob_files self w" by (rule blob_files_base [OF b])
  finally show ?thesis by (simp add: save_def Let_def)
qed

text \<open>
  C3, amended. After \<open>save\<close>, every file of the contents directory is named by the
  blob of an entry that survives (no orphans), and the blob file of a surviving entry is
  there exactly when it was there before the \<open>save\<close>: garbage collection removes no
  referenced file and restores no missing one.
\<close>

theorem save_no_orphans:
  "(\<forall>f \<in> blob_files (fst (save merge (self, w))) (snd (save merge (self, w))).
       \<exists>k e b. (k, e) \<in> set (entries (fst (save merge (self, w)))) \<and>
               contents e = Some b \<and> storage b = f) \<and>
   (\<forall>k e b. (k, e) \<in> set (entries (fst (save merge (self, w)))) \<and> contents e = Some b \<longrightarrow>
       (storage b \<in> blob_files (fst (save merge (self, w))) (snd (save merge (self, w)))
          \<longleftrightarrow> storage b \<in> blob_files self w))"
  unfolding save_blob_files [of merge self w]
  by (auto simp: referenced_blobs_def)

lemma total_bytes_Cons [simp]: "total_bytes ((k, e) # es) = contents_bytes e + total_bytes es"
  by (simp add: total_bytes_def)

lemma total_bytes_Nil [simp]: "total_bytes [] = 0"
  by (simp add: total_bytes_def)

lemma total_bytes_insort:
  "total_bytes (insort_key f x xs) = total_bytes [x] + total_bytes xs"
  by (induction xs) (auto simp: total_bytes_def)

lemma total_bytes_sort_key: "total_bytes (sort_key f xs) = total_bytes xs"
proof (induction xs)
  case Nil
  then show ?case by simp
next
  case (Cons x xs)
  then show ?case by (cases x) (simp add: total_bytes_insort)
qed

lemma lru_loop_idle:
  "cnt \<le> me \<Longrightarrow> sz \<le> ms \<Longrightarrow> lru_loop me ms R (es, cnt, sz) = (es, cnt, sz)"
proof (induction R)
  case Nil
  then show ?case by simp
next
  case (Cons x R)
  obtain k e where x: "x = (k, e)" by (cases x)
  from Cons show ?case unfolding x by (simp split: option.splits)
qed

lemma lru_cleanup_idle:
  assumes "int (length (entries self)) \<le> max_entries self"
      and "total_bytes (entries self) \<le> max_size self"
  shows "lru_cleanup self = self"
  using assms by (simp add: lru_cleanup_def Let_def total_bytes_sort_key lru_loop_idle)

lemma merge_no_index:
  "index_json w = Inl e \<Longrightarrow> merge_disk_cache self w = self"
  by (simp add: merge_disk_cache_def read_disk_entries_def)

lemma save_stale: 
  assumes "index_json w = Inl e"
  shows "fst (save True (stale_cache, w)) = stale_cache"
proof -
  have "lru_cleanup stale_cache = stale_cache"
    by (rule lru_cleanup_idle) (simp_all add: stale_cache_def contents_bytes_def)
  with assms show ?thesis by (simp add: save_def Let_def merge_no_index)
qed

text \<open>
  C3, as stated, fails: an entry whose blob file has disappeared survives \<open>save\<close> with
  its blob, and the file is still missing afterwards.
\<close>

theorem save_keeps_missing_blob:
  "map_option (map_option storage \<circ> contents)
     (map_of (entries (fst (save True (stale_cache, sample_world)))) ''m1:/usr/lib/libc.so'')
     = Some (Some ''/cache/contents/old'') \<and>
   ''/cache/contents/old'' \<notin>
     blob_files (fst (save True (stale_cache, sample_world)))
                (snd (save True (stale_cache, sample_world)))"
proof -
  have i: "index_json sample_world = Inl (FileNotFoundError [PyInt 2, PyStr ''No such file or directory''])"
    by (simp add: sample_world_def)
  have 1: "fst (save True (stale_cache, sample_world)) = stale_cache"
    by (rule save_stale [OF i])
  have 2: "blob_files stale_cache sample_world = {}"
    by (simp add: blob_files_def sample_world_def)
  have 3: "map_option (map_option storage \<circ> contents)
             (map_of (entries stale_cache) ''m1:/usr/lib/libc.so'') = Some (Some ''/cache/contents/old'')"
    by (simp add: stale_cache_def)
  from save_blob_files [of True stale_cache sample_world] 1 2 3 show ?thesis by simp
qed

theorem save_no_orphans_witness:
  "contents_dir (snd (save True (stale_cache, gc_world))) = [''old''] \<and>
   blob_files (fst (save True (stale_cache, gc_world))) (snd (save True (stale_cache, gc_world)))
     = {''/cache/contents/old''}"
proof -
  have i: "index_json gc_world = Inl (FileNotFoundError [PyInt 2, PyStr ''No such file or directory''])"
    by (simp add: sample_world_def gc_world_def)
  have l: "lru_cleanup stale_cache = stale_cache"
    by (rule lru_cleanup_idle) (simp_all add: stale_cache_def contents_bytes_def)
  have c: "cache_contents_path stale_cache = ''/cache/contents''"
    by (simp add: cache_contents_path_def stale_cache_def path_join_def isabs_def)
  have g: "contents_dir (garbage_collect_blobs stale_cache gc_world) = [''old'']"
    unfolding garbage_collect_blobs_def Let_def c
    by (simp add: stale_cache_def gc_world_def sample_world_def path_join_def isabs_def)
  have s: "snd (save True (stale_cache, gc_world)) =
             (garbage_collect_blobs stale_cache gc_world)\<lparr>index_json := Inr (entries stale_cache)\<rparr>"
    by (simp add: save_def Let_def merge_no_index [OF i] l)
  have f: "fst (save True (stale_cache, gc_world)) = stale_cache"
    by (rule save_stale [OF i])
  show ?thesis
    using save_no_orphans [of True stale_cache gc_world]
    by (simp add: s f g blob_files_def c path_join_def isabs_def)
qed

section \<open>Prefetching on the local side\<close>

text \<open>
  C6. When the rules or the resolver raise after the primary fetch,
  \<open>get_metadata_prefetch\<close> returns the metadata with an empty prefetch list, and
  \<open>readfile_prefetch\<close>, once the primary read has succeeded, returns the contents with
  an empty prefetch list; whenever the primary read succeeds \<open>readfile_prefetch\<close>
  returns it. (\<open>get_metadata_prefetch\<close> has no exceptional outcome at all.)
\<close>

theorem prefetch_failure_contained:
  "((\<exists>e. file_access rules p = Inl e) \<or>
    (\<exists>suggestions e. file_access rules p = Inr suggestions \<and>
        snd (resolve_prefetches fs (fst (svc_get_metadata fs self p)) suggestions) = Inl e)
      \<longrightarrow> snd (svc_get_metadata_prefetch rules fs self p) = (snd (svc_get_metadata fs self p), [])) \<and>
   (\<forall>base. snd (svc_readfile fs self p) = Inr base \<longrightarrow>
      (\<exists>prefetches. snd (svc_readfile_prefetch rules fs self p) = Inr (base, prefetches)) \<and>
      ((\<exists>e. file_read rules p = Inl e) \<or>
       (\<exists>suggestions e. file_read rules p = Inr suggestions \<and>
           snd (resolve_prefetches fs (fst (svc_readfile fs self p)) suggestions) = Inl e)
         \<longrightarrow> snd (svc_readfile_prefetch rules fs self p) = Inr (base, [])))"
  by (auto simp: svc_get_metadata_prefetch_def svc_readfile_prefetch_def
           split: prod.splits sum.splits)

theorem prefetch_failure_contained_witness:
  "snd (resolve_prefetches one_file_fs
          (fst (svc_get_metadata one_file_fs usr_service ''/usr/lib/libc.so''))
          [\<lparr>sg_path = ''lib/libm.so'', sg_contents = False\<rparr>])
     = Inl (ValueError [PyStr (''Can'' @ CHR 0x27 # ''t mix absolute and relative paths'')]) \<and>
   snd (svc_get_metadata_prefetch relative_rules one_file_fs usr_service ''/usr/lib/libc.so'')
     = (\<lparr>attr = Some file_attr, link = None, error = None\<rparr>, []) \<and>
   snd (svc_readfile_prefetch relative_rules one_file_fs usr_service ''/usr/lib/libc.so'')
     = Inr (\<lparr>compressed_data = ''foo'', fc_checksum = ''foo'', fc_size = 3\<rparr>, []) \<and>
   snd (svc_get_metadata_prefetch failing_rules one_file_fs usr_service ''/usr/lib/libc.so'')
     = (\<lparr>attr = Some file_attr, link = None, error = None\<rparr>, []) \<and>
   snd (svc_readfile_prefetch failing_rules one_file_fs usr_service ''/usr/lib/libc.so'')
     = Inr (\<lparr>compressed_data = ''foo'', fc_checksum = ''foo'', fc_size = 3\<rparr>, [])"
  using prefetch_failure_contained [of relative_rules "''/usr/lib/libc.so''" one_file_fs usr_service]
        prefetch_failure_contained [of failing_rules "''/usr/lib/libc.so''" one_file_fs usr_service]
  by (simp add: svc_get_metadata_prefetch_def svc_readfile_prefetch_def resolve_prefetches_def
        group_suggestions_def relative_rules_def failing_rules_def usr_service_def
        set_prefetchable_paths_def new_service_def is_prefetchable_def commonpath_def isabs_def
        svc_get_metadata_def svc_readfile_def from_data_def one_file_fs_def file_attr_def
        Metadata_default_def S_ISLNK_def S_IFMT_def Let_def)

section \<open>Saving the cache: the LRU pass\<close>

lemma keys_map_entry_list [simp]: "map fst (AList.map_entry k f es) = map fst es"
  by (induction es) auto

lemma length_map_entry [simp]: "length (AList.map_entry k f es) = length es"
  by (induction es) auto

lemma length_delete_present:
  "distinct (map fst es) \<Longrightarrow> map_of es k = Some e \<Longrightarrow>
     int (length (AList.delete k es)) = int (length es) - 1"
proof (induction es)
  case Nil
  then show ?case by simp
next
  case (Cons x es)
  obtain k' e' where x: "x = (k', e')" by (cases x)
  show ?case
  proof (cases "k' = k")
    case True
    with Cons.prems x have "k \<notin> fst ` set es" by auto
    with True x show ?thesis by (simp add: AList.delete_id)
  next
    case False
    with Cons x show ?thesis by simp
  qed
qed

lemma total_bytes_map_entry:
  "distinct (map fst es) \<Longrightarrow> map_of es k = Some e \<Longrightarrow>
     total_bytes (AList.map_entry k f es) = total_bytes es - contents_bytes e + contents_bytes (f e)"
proof (induction es)
  case Nil
  then show ?case by simp
next
  case (Cons x es)
  obtain k' e' where x: "x = (k', e')" by (cases x)
  show ?case
  proof (cases "k' = k")
    case True
    with Cons.prems x show ?thesis by simp
  next
    case False
    with Cons x show ?thesis by simp
  qed
qed

lemma total_bytes_delete:
  "distinct (map fst es) \<Longrightarrow> map_of es k = Some e \<Longrightarrow>
     total_bytes (AList.delete k es) = total_bytes es - contents_bytes e"
proof (induction es)
  case Nil
  then show ?case by simp
next
  case (Cons x es)
  obtain k' e' where x: "x = (k', e')" by (cases x)
  show ?case
  proof (cases "k' = k")
    case True
    with Cons.prems x have "k \<notin> fst ` set es" by auto
    with True Cons.prems x show ?thesis by (simp add: AList.delete_id)
  next
    case False
    with Cons x show ?thesis by simp
  qed
qed

text \<open>One round of the loop.\<close>

lemma lru_loop_Cons:
  "lru_loop me ms (x # R) s = lru_loop me ms R (lru_loop me ms [x] s)"
proof -
  obtain k e where x: "x = (k, e)" by (cases x)
  obtain es cnt sz where s: "s = (es, cnt, sz)" by (cases s)
  show ?thesis unfolding x s by (simp add: Let_def split: option.splits prod.splits)
qed

lemma lru_loop_single: "lru_loop me ms [(k, e)] s = lru_round me ms k e s"
proof -
  obtain es cnt sz where s: "s = (es, cnt, sz)" by (cases s)
  show ?thesis
    unfolding s lru_round_def
    by (simp add: Let_def contents_bytes_def split: option.splits)
qed

lemma lru_loop_step:
  "lru_loop me ms ((k, e) # R) s = lru_loop me ms R (lru_round me ms k e s)"
  by (simp only: lru_loop_Cons [of me ms "(k, e)" R s] lru_loop_single)

lemma map_of_round:
  "k' \<noteq> k \<Longrightarrow> map_of (fst (lru_round me ms k e (es, cnt, sz))) k' = map_of es k'"
  by (simp add: lru_round_def Let_def map_of_map_entry delete_conv)

lemma map_of_round_head:
  assumes "map_of es k = Some e"
  shows "map_of (fst (lru_round me ms k e (es, cnt, sz))) k =
           (if cnt > me then None
            else if contents e \<noteq> None \<and> sz > ms then Some (e\<lparr>contents := None\<rparr>)
            else Some e)"
  using assms by (simp add: lru_round_def Let_def map_of_map_entry delete_conv)

lemma distinct_round:
  "distinct (map fst es) \<Longrightarrow> distinct (map fst (fst (lru_round me ms k e (es, cnt, sz))))"
  by (simp add: lru_round_def Let_def distinct_delete)

lemma lru_inv_round:
  assumes "lru_inv ((k, e) # R) es"
  shows "lru_inv R (fst (lru_round me ms k e (es, cnt, sz)))"
proof -
  from assms have d: "distinct (map fst R)" and k: "k \<notin> fst ` set R"
    and de: "distinct (map fst es)" and m: "\<forall>(k', e') \<in> set R. map_of es k' = Some e'"
    by (auto simp: lru_inv_def)
  have "map_of (fst (lru_round me ms k e (es, cnt, sz))) k' = Some e'"
    if "(k', e') \<in> set R" for k' e'
  proof -
    from that k have "k' \<noteq> k" by force
    from map_of_round [OF this] m that show ?thesis by auto
  qed
  with d distinct_round [OF de] show ?thesis by (auto simp: lru_inv_def)
qed

lemma lru_inv_head: "lru_inv ((k, e) # R) es \<Longrightarrow> map_of es k = Some e"
  by (simp add: lru_inv_def)

text \<open>The counter of entries is the length of the dictionary, and it comes down to the
  limit.\<close>

lemma round_count:
  assumes "lru_inv ((k, e) # R) es" and "cnt = int (length es)"
  shows "fst (snd (lru_round me ms k e (es, cnt, sz))) =
           int (length (fst (lru_round me ms k e (es, cnt, sz))))"
proof -
  from assms(1) have de: "distinct (map fst es)" and h: "map_of es k = Some e"
    by (simp_all add: lru_inv_def)
  show ?thesis
  proof (cases "contents e \<noteq> None \<and> sz > ms")
    case True
    have d1: "distinct (map fst (AList.map_entry k (\<lambda>e. e\<lparr>contents := None\<rparr>) es))"
      using de by simp
    have h1: "map_of (AList.map_entry k (\<lambda>e. e\<lparr>contents := None\<rparr>) es) k
                = Some (e\<lparr>contents := None\<rparr>)"
      using h by (simp add: map_of_map_entry)
    from length_delete_present [OF d1 h1] True assms(2) show ?thesis
      by (simp add: lru_round_def Let_def)
  next
    case False
    from length_delete_present [OF de h] False assms(2) show ?thesis
      by (auto simp: lru_round_def Let_def)
  qed
qed

lemma lru_loop_count:
  "lru_inv R es \<Longrightarrow> cnt = int (length es) \<Longrightarrow>
     fst (snd (lru_loop me ms R (es, cnt, sz))) = int (length (fst (lru_loop me ms R (es, cnt, sz))))"
proof (induction R arbitrary: es cnt sz)
  case Nil
  then show ?case by simp
next
  case (Cons x R)
  obtain k e where x: "x = (k, e)" by (cases x)
  obtain es2 cnt2 sz2 where r: "lru_round me ms k e (es, cnt, sz) = (es2, cnt2, sz2)"
    by (cases "lru_round me ms k e (es, cnt, sz)")
  from lru_inv_round [OF Cons.prems(1) [unfolded x], of me ms cnt sz] r
  have i: "lru_inv R es2" by simp
  from round_count [OF Cons.prems(1) [unfolded x] Cons.prems(2), of me ms sz] r
  have c: "cnt2 = int (length es2)" by simp
  from Cons.IH [OF i c] show ?case by (simp add: x lru_loop_step r)
qed

lemma lru_loop_count_bound:
  "fst (snd (lru_loop me ms R (es, cnt, sz))) \<le> max me (cnt - int (length R))"
proof (induction R arbitrary: es cnt sz)
  case Nil
  then show ?case by simp
next
  case (Cons x R)
  obtain k e where x: "x = (k, e)" by (cases x)
  obtain es2 cnt2 sz2 where r: "lru_round me ms k e (es, cnt, sz) = (es2, cnt2, sz2)"
    by (cases "lru_round me ms k e (es, cnt, sz)")
  then have c: "cnt2 = (if cnt > me then cnt - 1 else cnt)"
    by (simp add: lru_round_def Let_def)
  from Cons.IH [of es2 cnt2 sz2]
  have "fst (snd (lru_loop me ms R (es2, cnt2, sz2))) \<le> max me (cnt2 - int (length R))" .
  also have "\<dots> \<le> max me (cnt - int (length (x # R)))"
    using c by (simp split: if_splits)
  finally show ?case by (simp add: x lru_loop_step r)
qed

text \<open>The counter of bytes bounds the bytes of the dictionary, and it comes down to the
  limit.\<close>

lemma set_map_entry:
  "(k', e') \<in> set (AList.map_entry k f es) \<Longrightarrow>
     (k', e') \<in> set es \<or> (\<exists>e0. (k', e0) \<in> set es \<and> e' = f e0)"
  by (induction es) (auto split: if_splits)

lemma set_delete_subset: "set (AList.delete k es) \<subseteq> set es"
  by (induction es) auto

lemma nonneg_round:
  assumes "nonneg_sizes es"
  shows "nonneg_sizes (fst (lru_round me ms k e (es, cnt, sz)))"
proof -
  have 1: "nonneg_sizes (AList.map_entry k (\<lambda>e. e\<lparr>contents := None\<rparr>) es)"
    unfolding nonneg_sizes_def
  proof (intro ballI, clarify)
    fix k' e' assume "(k', e') \<in> set (AList.map_entry k (\<lambda>e. e\<lparr>contents := None\<rparr>) es)"
    from set_map_entry [OF this] assms show "0 \<le> contents_bytes e'"
      by (auto simp: nonneg_sizes_def contents_bytes_def)
  qed
  have 2: "nonneg_sizes (AList.delete k xs)" if "nonneg_sizes xs" for xs
    using that set_delete_subset [of k xs] unfolding nonneg_sizes_def by blast
  show ?thesis
    using assms 1 2 by (simp add: lru_round_def Let_def)
qed

lemma nonneg_lookup: "nonneg_sizes es \<Longrightarrow> map_of es k = Some e \<Longrightarrow> 0 \<le> contents_bytes e"
  unfolding nonneg_sizes_def by (drule map_of_SomeD) auto

lemma round_bytes:
  assumes i: "lru_inv ((k, e) # R) es" and n: "nonneg_sizes es"
      and b: "total_bytes es \<le> sz" and t: "sz \<le> ms \<or> sz = total_bytes ((k, e) # R)"
      and r: "lru_round me ms k e (es, cnt, sz) = (es2, cnt2, sz2)"
  shows "total_bytes es2 \<le> sz2 \<and> (sz2 \<le> ms \<or> sz2 = total_bytes R)"
proof -
  from i have de: "distinct (map fst es)" and h: "map_of es k = Some e"
    by (simp_all add: lru_inv_def)
  define dropped where "dropped = (contents e \<noteq> None \<and> sz > ms)"
  define es1 where
    "es1 = (if dropped then AList.map_entry k (\<lambda>e. e\<lparr>contents := None\<rparr>) es else es)"
  define e1 where "e1 = (if dropped then e\<lparr>contents := None\<rparr> else e)"
  from r have sz2: "sz2 = (if dropped then sz - contents_bytes e else sz)"
    and es2: "es2 = (if cnt > me then AList.delete k es1 else es1)"
    unfolding lru_round_def Let_def dropped_def es1_def prod.case by auto
  have d1: "distinct (map fst es1)" using de by (simp add: es1_def)
  have h1: "map_of es1 k = Some e1" using h by (simp add: es1_def e1_def map_of_map_entry)
  have b1: "total_bytes es1 = (if dropped then total_bytes es - contents_bytes e else total_bytes es)"
    using total_bytes_map_entry [OF de h, of "\<lambda>e. e\<lparr>contents := None\<rparr>"]
    by (simp add: es1_def contents_bytes_def)
  have n1: "0 \<le> contents_bytes e1"
    using nonneg_lookup [OF n h] by (simp add: e1_def contents_bytes_def)
  have b2: "total_bytes es2 \<le> total_bytes es1"
    using total_bytes_delete [OF d1 h1] n1 by (simp add: es2)
  have "total_bytes es2 \<le> sz2" using b2 b1 b sz2 by (simp split: if_splits)
  moreover have "sz2 \<le> ms \<or> sz2 = total_bytes R"
  proof (cases dropped)
    case True
    then have "sz > ms" by (simp add: dropped_def)
    with t have "sz = contents_bytes e + total_bytes R" by simp
    with True sz2 show ?thesis by simp
  next
    case False
    show ?thesis
    proof (cases "sz \<le> ms")
      case True
      with False sz2 show ?thesis by simp
    next
      case nle: False
      with False have "contents e = None" by (simp add: dropped_def)
      then have "contents_bytes e = 0" by (simp add: contents_bytes_def)
      with t nle False sz2 show ?thesis by simp
    qed
  qed
  ultimately show ?thesis by simp
qed

lemma lru_loop_bytes:
  "lru_inv R es \<Longrightarrow> nonneg_sizes es \<Longrightarrow> total_bytes es \<le> sz \<Longrightarrow>
   sz \<le> ms \<or> sz = total_bytes R \<Longrightarrow>
     total_bytes (fst (lru_loop me ms R (es, cnt, sz))) \<le> max ms 0"
proof (induction R arbitrary: es cnt sz)
  case Nil
  then show ?case by auto
next
  case (Cons x R)
  obtain k e where x: "x = (k, e)" by (cases x)
  obtain es2 cnt2 sz2 where r: "lru_round me ms k e (es, cnt, sz) = (es2, cnt2, sz2)"
    by (cases "lru_round me ms k e (es, cnt, sz)")
  from lru_inv_round [OF Cons.prems(1) [unfolded x], of me ms cnt sz] r
  have i: "lru_inv R es2" by simp
  from nonneg_round [OF Cons.prems(2), of me ms k e cnt sz] r
  have n: "nonneg_sizes es2" by simp
  from round_bytes [OF Cons.prems(1) [unfolded x] Cons.prems(2,3) Cons.prems(4) [unfolded x] r]
  have b: "total_bytes es2 \<le> sz2" and t: "sz2 \<le> ms \<or> sz2 = total_bytes R" by simp_all
  from Cons.IH [OF i n b t] show ?case by (simp add: x lru_loop_step r)
qed

text \<open>What the loop leaves alone.\<close>

lemma lru_loop_frame:
  "k \<notin> fst ` set R \<Longrightarrow> map_of (fst (lru_loop me ms R (es, cnt, sz))) k = map_of es k"
proof (induction R arbitrary: es cnt sz)
  case Nil
  then show ?case by simp
next
  case (Cons x R)
  obtain k' e' where x: "x = (k', e')" by (cases x)
  obtain es2 cnt2 sz2 where r: "lru_round me ms k' e' (es, cnt, sz) = (es2, cnt2, sz2)"
    by (cases "lru_round me ms k' e' (es, cnt, sz)")
  from Cons.prems x have ne: "k \<noteq> k'" and nin: "k \<notin> fst ` set R" by auto
  from map_of_round [OF ne, of me ms e' es cnt sz] r have "map_of es2 k = map_of es k" by simp
  with Cons.IH [OF nin, of es2 cnt2 sz2] show ?case by (simp add: x lru_loop_step r)
qed

lemma lru_loop_no_delete:
  "cnt \<le> me \<Longrightarrow> map fst (fst (lru_loop me ms R (es, cnt, sz))) = map fst es"
proof (induction R arbitrary: es sz)
  case Nil
  then show ?case by simp
next
  case (Cons x R)
  obtain k e where x: "x = (k, e)" by (cases x)
  obtain es2 cnt2 sz2 where r: "lru_round me ms k e (es, cnt, sz) = (es2, cnt2, sz2)"
    by (cases "lru_round me ms k e (es, cnt, sz)")
  with Cons.prems have c: "cnt2 = cnt" and k: "map fst es2 = map fst es"
    by (auto simp: lru_round_def Let_def split: if_splits)
  from Cons.IH [OF Cons.prems, of es2 sz2] c k show ?case by (simp add: x lru_loop_step r)
qed

lemma lru_loop_no_drop:
  "sz \<le> ms \<Longrightarrow>
     map_of (fst (lru_loop me ms R (es, cnt, sz))) k = map_of es k \<or>
     map_of (fst (lru_loop me ms R (es, cnt, sz))) k = None"
proof (induction R arbitrary: es cnt)
  case Nil
  then show ?case by simp
next
  case (Cons x R)
  obtain k' e' where x: "x = (k', e')" by (cases x)
  obtain es2 cnt2 sz2 where r: "lru_round me ms k' e' (es, cnt, sz) = (es2, cnt2, sz2)"
    by (cases "lru_round me ms k' e' (es, cnt, sz)")
  with Cons.prems have s: "sz2 = sz"
    and m: "map_of es2 k = map_of es k \<or> map_of es2 k = None"
    by (auto simp: lru_round_def Let_def delete_conv split: if_splits)
  from Cons.IH [OF Cons.prems, of es2 cnt2] s m show ?case
    by (auto simp: x lru_loop_step r)
qed

text \<open>Oldest first.\<close>

lemma lru_loop_order:
  assumes "sorted (map (\<lambda>(k, e). last_access e) R)" and "lru_inv R es"
      and "(k1, e1) \<in> set R" and "(k2, e2) \<in> set R" and "last_access e1 < last_access e2"
  shows "(map_of (fst (lru_loop me ms R (es, cnt, sz))) k2 = None \<longrightarrow>
            map_of (fst (lru_loop me ms R (es, cnt, sz))) k1 = None) \<and>
         (contents e2 \<noteq> None \<and> \<not> has_contents (fst (lru_loop me ms R (es, cnt, sz))) k2 \<longrightarrow>
            \<not> has_contents (fst (lru_loop me ms R (es, cnt, sz))) k1)"
  using assms
proof (induction R arbitrary: es cnt sz)
  case Nil
  then show ?case by simp
next
  case (Cons x R)
  obtain k e where x: "x = (k, e)" by (cases x)
  obtain es2 cnt2 sz2 where r: "lru_round me ms k e (es, cnt, sz) = (es2, cnt2, sz2)"
    by (cases "lru_round me ms k e (es, cnt, sz)")
  let ?es' = "fst (lru_loop me ms R (es2, cnt2, sz2))"
  have res: "fst (lru_loop me ms (x # R) (es, cnt, sz)) = ?es'"
    by (simp add: x lru_loop_step r)
  from Cons.prems(2) have inv: "lru_inv ((k, e) # R) es" by (simp add: x)
  from lru_inv_round [OF inv, of me ms cnt sz] r have i2: "lru_inv R es2" by simp
  from Cons.prems(1) have so: "sorted (map (\<lambda>(k, e). last_access e) R)"
    and le: "\<forall>(k', e') \<in> set R. last_access e \<le> last_access e'"
    by (auto simp: x)
  from inv have knin: "k \<notin> fst ` set R" and hk: "map_of es k = Some e"
    by (auto simp: lru_inv_def)
  show ?case
  proof (cases "(k2, e2) \<in> set R")
    case in2: True
    show ?thesis
    proof (cases "(k1, e1) \<in> set R")
      case True
      from Cons.IH [OF so i2 True in2 Cons.prems(5), of cnt2 sz2] show ?thesis
        unfolding res .
    next
      case False
      with Cons.prems(3) x have h1: "k1 = k" "e1 = e" by auto
      have fr: "map_of ?es' k = map_of es2 k" by (rule lru_loop_frame [OF knin])
      from i2 in2 have m2: "map_of es2 k2 = Some e2" by (auto simp: lru_inv_def)
      from map_of_round_head [OF hk, of me ms cnt sz] r
      have head: "map_of es2 k = (if cnt > me then None
            else if contents e \<noteq> None \<and> sz > ms then Some (e\<lparr>contents := None\<rparr>)
            else Some e)" by simp
      from r have c2: "cnt2 = (if cnt > me then cnt - 1 else cnt)"
        and s2: "sz2 = (if contents e \<noteq> None \<and> sz > ms then sz - contents_bytes e else sz)"
        by (simp_all add: lru_round_def Let_def)
      have k2in: "map_of ?es' k2 \<noteq> None" if "\<not> cnt > me"
      proof -
        from that c2 have "cnt2 \<le> me" by simp
        from lru_loop_no_delete [OF this, of ms R es2 sz2]
        have "fst ` set ?es' = fst ` set es2"
          by (metis set_map)
        moreover from m2 have "k2 \<in> fst ` set es2" by (rule map_of_in_keys)
        ultimately show ?thesis by (simp add: map_of_eq_None_iff)
      qed
      have A: "map_of ?es' k2 = None \<longrightarrow> map_of ?es' k = None"
        using k2in head fr by auto
      have B: "contents e2 \<noteq> None \<and> \<not> has_contents ?es' k2 \<longrightarrow> \<not> has_contents ?es' k"
      proof (intro impI notI)
        assume a: "contents e2 \<noteq> None \<and> \<not> has_contents ?es' k2"
          and hc: "has_contents ?es' k"
        from hc fr head have nd: "\<not> cnt > me" and keep: "\<not> (contents e \<noteq> None \<and> sz > ms)"
          and ce: "contents e \<noteq> None"
          by (auto simp: has_contents_def split: if_splits)
        from keep ce have "sz \<le> ms" by simp
        with s2 keep have "sz2 \<le> ms" by simp
        from lru_loop_no_drop [OF this, of me R es2 cnt2 k2] k2in [OF nd] m2
        have "map_of ?es' k2 = Some e2" by auto
        with a show False by (auto simp: has_contents_def)
      qed
      from A B show ?thesis unfolding res h1 by simp
    qed
  next
    case False
    with Cons.prems(4) x have h2: "k2 = k" "e2 = e" by auto
    show ?thesis
    proof (cases "(k1, e1) \<in> set R")
      case True
      with le have "last_access e \<le> last_access e1" by auto
      with Cons.prems(5) h2 show ?thesis by simp
    next
      case False
      with Cons.prems(3) x have "e1 = e" by auto
      with Cons.prems(5) h2 show ?thesis by simp
    qed
  qed
qed

text \<open>The pass over the whole dictionary.\<close>

lemma lru_inv_sorted:
  assumes "distinct (map fst es)"
  shows "lru_inv (sort_key f es) es"
proof -
  from assms have "distinct es" and "inj_on fst (set es)" by (simp_all add: distinct_map)
  then have "distinct (map fst (sort_key f es))" by (simp add: distinct_map)
  moreover have "map_of es k = Some e" if "(k, e) \<in> set (sort_key f es)" for k e
    using that assms by (simp add: map_of_is_SomeI)
  ultimately show ?thesis using assms by (auto simp: lru_inv_def)
qed

lemma entries_lru_cleanup:
  "entries (lru_cleanup self) =
     fst (lru_loop (max_entries self) (max_size self)
            (sort_key (\<lambda>(k, e). last_access e) (entries self))
            (entries self, int (length (entries self)), total_bytes (entries self)))"
  by (simp add: lru_cleanup_def Let_def total_bytes_sort_key)

lemma lru_cleanup_count:
  assumes "distinct (map fst (entries self))" and "0 \<le> max_entries self"
  shows "int (length (entries (lru_cleanup self))) \<le> max_entries self"
proof -
  let ?R = "sort_key (\<lambda>(k, e). last_access e) (entries self)"
  let ?s = "(entries self, int (length (entries self)), total_bytes (entries self))"
  from lru_loop_count [OF lru_inv_sorted [OF assms(1)] refl, of "max_entries self" "max_size self"
          "\<lambda>(k, e). last_access e" "total_bytes (entries self)"]
  have "int (length (fst (lru_loop (max_entries self) (max_size self) ?R ?s))) =
          fst (snd (lru_loop (max_entries self) (max_size self) ?R ?s))" by simp
  also from lru_loop_count_bound [of "max_entries self" "max_size self" ?R "entries self"
          "int (length (entries self))" "total_bytes (entries self)"]
  have "\<dots> \<le> max (max_entries self) 0" by simp
  finally show ?thesis using assms(2) by (simp add: entries_lru_cleanup)
qed

lemma lru_cleanup_bytes:
  assumes "distinct (map fst (entries self))" and "0 \<le> max_size self"
      and "nonneg_sizes (entries self)"
  shows "total_bytes (entries (lru_cleanup self)) \<le> max_size self"
proof -
  have "total_bytes (entries self) \<le> max_size self \<or>
        total_bytes (entries self) =
          total_bytes (sort_key (\<lambda>(k, e). last_access e) (entries self))"
    by (simp add: total_bytes_sort_key)
  from lru_loop_bytes [OF lru_inv_sorted [OF assms(1)] assms(3) order_refl this,
          of "max_entries self" "int (length (entries self))"]
  show ?thesis using assms(2) by (simp add: entries_lru_cleanup)
qed

lemma lru_cleanup_order:
  assumes "distinct (map fst (entries self))"
      and "map_of (entries self) k1 = Some e1" and "map_of (entries self) k2 = Some e2"
      and "last_access e1 < last_access e2"
  shows "(map_of (entries (lru_cleanup self)) k2 = None \<longrightarrow>
            map_of (entries (lru_cleanup self)) k1 = None) \<and>
         (contents e2 \<noteq> None \<and> \<not> has_contents (entries (lru_cleanup self)) k2 \<longrightarrow>
            \<not> has_contents (entries (lru_cleanup self)) k1)"
proof -
  let ?R = "sort_key (\<lambda>(k, e). last_access e) (entries self)"
  have s: "sorted (map (\<lambda>(k, e). last_access e) ?R)" by (rule sorted_sort_key)
  from assms(2,3) have i: "(k1, e1) \<in> set ?R" "(k2, e2) \<in> set ?R"
    by (simp_all add: map_of_SomeD)
  from lru_loop_order [OF s lru_inv_sorted [OF assms(1)] i assms(4)]
  show ?thesis unfolding entries_lru_cleanup .
qed

text \<open>The merge keeps the dictionary a dictionary.\<close>

lemma set_update_subset: "set (AList.update k v es) \<subseteq> insert (k, v) (set es)"
  by (induction es) auto

lemma merge_fold_distinct:
  "distinct (map fst es) \<Longrightarrow>
     distinct (map fst (fold (\<lambda>(key, disk_entry) es.
                   if newer_than disk_entry (map_of es key)
                   then AList.update key disk_entry es else es) d es))"
proof (induction d arbitrary: es)
  case Nil
  then show ?case by simp
next
  case (Cons x d)
  obtain k e where x: "x = (k, e)" by (cases x)
  from Cons.prems have "distinct (map fst (AList.update k e es))" by (rule distinct_update)
  with Cons.prems Cons.IH show ?case by (simp add: x)
qed

lemma merge_fold_nonneg:
  "nonneg_sizes es \<Longrightarrow> nonneg_sizes d \<Longrightarrow>
     nonneg_sizes (fold (\<lambda>(key, disk_entry) es.
                   if newer_than disk_entry (map_of es key)
                   then AList.update key disk_entry es else es) d es)"
proof (induction d arbitrary: es)
  case Nil
  then show ?case by simp
next
  case (Cons x d)
  obtain k e where x: "x = (k, e)" by (cases x)
  from Cons.prems(2) have d: "nonneg_sizes d" and e: "0 \<le> contents_bytes e"
    by (auto simp: nonneg_sizes_def x)
  have "nonneg_sizes (AList.update k e es)"
    using set_update_subset [of k e es] Cons.prems(1) e unfolding nonneg_sizes_def by blast
  with Cons.prems(1) d Cons.IH show ?case by (simp add: x)
qed

lemma merge_distinct:
  "distinct (map fst (entries self)) \<Longrightarrow> distinct (map fst (entries (merge_disk_cache self w)))"
  by (simp add: merge_disk_cache_def Let_def merge_fold_distinct)

lemma merge_nonneg:
  assumes "nonneg_sizes (entries self)" and "\<forall>d. index_json w = Inr d \<longrightarrow> nonneg_sizes d"
  shows "nonneg_sizes (entries (merge_disk_cache self w))"
proof -
  have "nonneg_sizes (case read_disk_entries w of Inl e \<Rightarrow> [] | Inr d \<Rightarrow> d)"
  proof (cases "index_json w")
    case (Inl e)
    then show ?thesis by (simp add: read_disk_entries_def nonneg_sizes_def)
  next
    case (Inr d)
    with assms(2) show ?thesis by (simp add: read_disk_entries_def)
  qed
  with assms(1) show ?thesis by (simp add: merge_disk_cache_def Let_def merge_fold_nonneg)
qed

lemma limits_merge [simp]:
  "max_entries (merge_disk_cache self w) = max_entries self"
  "max_size (merge_disk_cache self w) = max_size self"
  by (simp_all add: merge_disk_cache_def Let_def)

lemma fst_save:
  "fst (save merge (self, w)) = lru_cleanup (if merge then merge_disk_cache self w else self)"
  by (simp add: save_def Let_def)

text \<open>
  C1, amended. Let the limits \<open>max_entries\<close> and \<open>max_size\<close> be non-negative and no blob
  have a negative size (the dictionaries have one entry per key). After \<open>save\<close> the
  number of entries is at most \<open>max_entries\<close> and the bytes of the retained blobs
  are at most \<open>max_size\<close>. Eviction goes by ascending \<open>last_access\<close>: of two entries
  of the dictionary that the LRU pass starts from (after the merge), when the one with
  the larger \<open>last_access\<close> has been deleted, so has the one with the smaller; and when
  the one with the larger \<open>last_access\<close> had contents and does not retain them, the one
  with the smaller retains none.
\<close>

theorem save_lru_limits:
  fixes merge self w
  defines "before \<equiv> entries (if merge then merge_disk_cache self w else self)"
  defines "after \<equiv> entries (fst (save merge (self, w)))"
  assumes "distinct (map fst (entries self))"
      and "0 \<le> max_entries self" and "0 \<le> max_size self"
      and "\<forall>(k, e) \<in> set (entries self). 0 \<le> contents_bytes e"
      and "\<forall>d. index_json w = Inr d \<longrightarrow> (\<forall>(k, e) \<in> set d. 0 \<le> contents_bytes e)"
  shows "int (count (fst (save merge (self, w)))) \<le> max_entries self \<and>
         cache_size (fst (save merge (self, w))) \<le> max_size self \<and>
         (\<forall>k1 e1 k2 e2.
            map_of before k1 = Some e1 \<and> map_of before k2 = Some e2 \<and>
            last_access e1 < last_access e2 \<longrightarrow>
              (map_of after k2 = None \<longrightarrow> map_of after k1 = None) \<and>
              (contents e2 \<noteq> None \<and> \<not> has_contents after k2 \<longrightarrow> \<not> has_contents after k1))"
proof -
  let ?m = "if merge then merge_disk_cache self w else self"
  have d: "distinct (map fst (entries ?m))"
    using assms(3) by (simp add: merge_distinct)
  have n: "nonneg_sizes (entries ?m)"
    using merge_nonneg [of self w] assms(6,7) by (simp add: nonneg_sizes_def)
  have me: "max_entries ?m = max_entries self" and ms: "max_size ?m = max_size self"
    by simp_all
  have 1: "int (count (fst (save merge (self, w)))) \<le> max_entries self"
    using lru_cleanup_count [OF d] assms(4) me by (simp add: fst_save count_def)
  have 2: "cache_size (fst (save merge (self, w))) \<le> max_size self"
    using lru_cleanup_bytes [OF d _ n] assms(5) ms by (simp add: fst_save cache_size_def)
  have 3: "(map_of after k2 = None \<longrightarrow> map_of after k1 = None) \<and>
           (contents e2 \<noteq> None \<and> \<not> has_contents after k2 \<longrightarrow> \<not> has_contents after k1)"
    if "map_of before k1 = Some e1" "map_of before k2 = Some e2"
       "last_access e1 < last_access e2" for k1 e1 k2 e2
    using lru_cleanup_order [OF d that [unfolded before_def]]
    unfolding after_def fst_save .
  from 1 2 3 show ?thesis by blast
qed

text \<open>
  C1, as stated, fails for limits below zero, which the configuration file can set: an
  empty cache has 0 entries and 0 bytes after \<open>save\<close>, more than a limit of -1.
\<close>

theorem save_negative_limits:
  "\<not> int (count (fst (save True (neg_cache, sample_world)))) \<le> max_entries neg_cache \<and>
   \<not> cache_size (fst (save True (neg_cache, sample_world))) \<le> max_size neg_cache"
proof -
  have i: "index_json sample_world = Inl (FileNotFoundError [PyInt 2, PyStr ''No such file or directory''])"
    by (simp add: sample_world_def)
  have "entries (lru_cleanup neg_cache) = []"
    by (simp add: entries_lru_cleanup neg_cache_def)
  then show ?thesis
    by (simp add: fst_save merge_no_index [OF i] count_def cache_size_def neg_cache_def)
qed

lemma lru_cache_cleanup:
  "entries (lru_cleanup lru_cache) =
     [(''m1:/usr/c'',
          \<lparr>path = ''/usr/c'', meta = file_meta, last_access = 3, last_update = 3,
           contents = Some \<lparr>storage = ''/cache/contents/c'', blob_size = 2,
                            checksum = ''cc'', dirty = False\<rparr>\<rparr>),
      (''m1:/usr/b'',
          \<lparr>path = ''/usr/b'', meta = file_meta, last_access = 2, last_update = 2,
           contents = None\<rparr>)]"
  by (simp add: entries_lru_cleanup lru_cache_def lru_loop_step lru_round_def Let_def
        contents_bytes_def)

theorem save_lru_limits_witness:
  "int (count (fst (save True (lru_cache, sample_world)))) = 2 \<and>
   cache_size (fst (save True (lru_cache, sample_world))) = 2 \<and>
   map fst (entries (fst (save True (lru_cache, sample_world)))) = [''m1:/usr/c'', ''m1:/usr/b''] \<and>
   \<not> has_contents (entries (fst (save True (lru_cache, sample_world)))) ''m1:/usr/b'' \<and>
   has_contents (entries (fst (save True (lru_cache, sample_world)))) ''m1:/usr/c''"
proof -
  have i: "index_json sample_world = Inl (FileNotFoundError [PyInt 2, PyStr ''No such file or directory''])"
    by (simp add: sample_world_def)
  have f: "fst (save True (lru_cache, sample_world)) = lru_cleanup lru_cache"
    by (simp add: fst_save merge_no_index [OF i])
  have h: "distinct (map fst (entries lru_cache))" "0 \<le> max_entries lru_cache"
    "0 \<le> max_size lru_cache" "\<forall>(k, e) \<in> set (entries lru_cache). 0 \<le> contents_bytes e"
    "\<forall>d. index_json sample_world = Inr d \<longrightarrow> (\<forall>(k, e) \<in> set d. 0 \<le> contents_bytes e)"
    by (simp_all add: lru_cache_def contents_bytes_def i)
  from save_lru_limits [OF h, of True]
  show ?thesis
    by (simp add: f lru_cache_cleanup count_def cache_size_def contents_bytes_def
          has_contents_def)
qed

end
